theory Spec2Isabelle
  imports Complex_Main "HOL-Library.Word"
begin

unbundle bit_operations_syntax

section \<open>Python values and exceptions\<close>

text \<open>
  A shallow embedding of \<^verbatim>\<open>usbll2sr.py\<close>. A \<^verbatim>\<open>bytes\<close> object is a list of
  8-bit words, a Python \<^verbatim>\<open>int\<close> is an \<^typ>\<open>int\<close>, a \<^verbatim>\<open>str\<close> is a \<^typ>\<open>string\<close>.
  Every exception the script can raise is a value of \<open>pyerror\<close>; the ones the script
  raises itself keep their message.
\<close>

type_synonym byte = "8 word"

datatype pyerror =
    ValueError string
  | RuntimeError string
  | KeyError string
  | NameError string
  | AttributeError string
  | IndexError
  | TypeError
  | ZeroDivisionError
  | SystemExit int

text \<open>\<^verbatim>\<open>str(n)\<close> for an integer: the decimal numeral, with a minus sign when negative.\<close>

definition digit_char :: "nat \<Rightarrow> char" where
  "digit_char d = char_of (48 + d)"

fun str_nat :: "nat \<Rightarrow> string" where
  "str_nat n = (if n < 10 then [digit_char n] else str_nat (n div 10) @ [digit_char (n mod 10)])"

declare str_nat.simps [simp del]

definition str_int :: "int \<Rightarrow> string" where
  "str_int i = (if i < 0 then CHR ''-'' # str_nat (nat (- i)) else str_nat (nat i))"

text \<open>
  Python slicing with one bound, \<^verbatim>\<open>xs[:r]\<close> and \<^verbatim>\<open>xs[r:]\<close>: a negative bound counts
  from the end, and every bound is clipped to the sequence.
\<close>

definition slice_bound :: "int \<Rightarrow> 'a list \<Rightarrow> nat" where
  "slice_bound r xs = nat (if r < 0 then int (length xs) + r else r)"

definition slice_to :: "int \<Rightarrow> 'a list \<Rightarrow> 'a list" where
  "slice_to r xs = take (slice_bound r xs) xs"

definition slice_from :: "int \<Rightarrow> 'a list \<Rightarrow> 'a list" where
  "slice_from r xs = drop (slice_bound r xs) xs"

section \<open>The archive\<close>

text \<open>
  The \<^verbatim>\<open>zipfile.ZipFile\<close> the writer owns is modelled by what the script does to it:
  the entries written so far, in order, each a name and a body, and whether \<^verbatim>\<open>close()\<close>
  has sealed it. A body is raw bytes, or the sections of a \<^verbatim>\<open>ConfigParser\<close> written
  as text. The failures of the file system are outside the model.
\<close>

datatype entry_body =
    Raw "byte list"
  | Ini "(string \<times> (string \<times> string) list) list"

record zipfile =
  zip_filename :: string
  zip_mode :: string
  entries :: "(string \<times> entry_body) list"
  closed :: bool

definition ZipFile :: "string \<Rightarrow> string \<Rightarrow> zipfile" where
  "ZipFile filename mode = \<lparr>zip_filename = filename, zip_mode = mode, entries = [], closed = False\<rparr>"

definition zip_write :: "string \<Rightarrow> entry_body \<Rightarrow> zipfile \<Rightarrow> zipfile" where
  "zip_write name body z = z\<lparr>entries := entries z @ [(name, body)]\<rparr>"

definition zip_close :: "zipfile \<Rightarrow> zipfile" where
  "zip_close z = z\<lparr>closed := True\<rparr>"

section \<open>SimpleSRWriter\<close>

record writer =
  channels :: "string list"
  sample_rate :: int
  capture_file :: string
  unit_size :: int
  zip_sr :: zipfile
  current_slice :: int
  slice_limit :: int
  slice_buffer :: "byte list"
  sample_counter :: int

text \<open>The \<^verbatim>\<open>probeN\<close> lines of the metadata, from \<^verbatim>\<open>enumerate(channels)\<close>.\<close>

fun probes :: "nat \<Rightarrow> string list \<Rightarrow> (string \<times> string) list" where
  "probes i [] = []"
| "probes i (ch # chs) = (''probe'' @ str_int (int i + 1), ch) # probes (Suc i) chs"

definition metadata :: "string \<Rightarrow> string list \<Rightarrow> int \<Rightarrow> int \<Rightarrow> entry_body" where
  "metadata cf chans rate usize = Ini
     [(''global'', [(''sigrok version'', ''0.7.1'')]),
      (''device 1'',
         [(''capturefile'', cf),
          (''total probes'', str_int (int (length chans))),
          (''samplerate'', str_int rate),
          (''total analog'', ''0'')]
         @ probes 0 chans
         @ [(''unitsize'', str_int usize)])]"

text \<open>
  \<^verbatim>\<open>__init__\<close>. The unit size is \<^verbatim>\<open>-(-len(channels) // 8)\<close>; \<open>div\<close> on \<^typ>\<open>int\<close> rounds
  towards minus infinity, as \<^verbatim>\<open>//\<close> does.
\<close>

definition SimpleSRWriter_init :: "string \<Rightarrow> string list \<Rightarrow> int \<Rightarrow> bool \<Rightarrow> int \<Rightarrow> writer" where
  "SimpleSRWriter_init filename chans rate overwrite limit =
     (let cf = ''logic-1'';
          usize = - ((- int (length chans)) div 8);
          z0 = ZipFile filename (if overwrite then ''w'' else ''x'');
          z1 = zip_write ''version'' (Raw [50]) z0;
          z2 = zip_write ''metadata'' (metadata cf chans rate usize) z1
      in \<lparr>channels = chans, sample_rate = rate, capture_file = cf, unit_size = usize,
          zip_sr = z2, current_slice = 1, slice_limit = limit, slice_buffer = [],
          sample_counter = 0\<rparr>)"

definition finalize_current_slice :: "writer \<Rightarrow> writer" where
  "finalize_current_slice w =
     w\<lparr>zip_sr := zip_write (capture_file w @ ''-'' @ str_int (current_slice w))
                   (Raw (slice_buffer w)) (zip_sr w),
       slice_buffer := [],
       current_slice := current_slice w + 1\<rparr>"

text \<open>
  The \<^verbatim>\<open>while True\<close> loop of \<^verbatim>\<open>write_samples\<close>. The slice buffer is only ever appended
  to, so \<^verbatim>\<open>tell()\<close> is its length. Nothing in the loop bounds the number of rounds (with
  a slice limit of 0 it never leaves), so it is a partial function: \<open>None\<close> is a loop
  that does not return.
\<close>

partial_function (option) write_loop :: "writer \<Rightarrow> byte list \<Rightarrow> writer option" where
  "write_loop w samples_mv =
     (let remaining = slice_limit w - int (length (slice_buffer w)) in
      if int (length samples_mv) > remaining
      then write_loop
             (finalize_current_slice
                (w\<lparr>slice_buffer := slice_buffer w @ slice_to remaining samples_mv\<rparr>))
             (slice_from remaining samples_mv)
      else Some (w\<lparr>slice_buffer := slice_buffer w @ samples_mv\<rparr>))"

declare write_loop.simps [code]

definition write_samples :: "byte list \<Rightarrow> writer \<Rightarrow> (pyerror + writer) option" where
  "write_samples samples w =
     (if unit_size w = 0 then Some (Inl ZeroDivisionError)
      else if int (length samples) mod unit_size w \<noteq> 0
      then Some (Inl (ValueError ''Unaligned sample write.''))
      else case write_loop w samples of
             None \<Rightarrow> None
           | Some w' \<Rightarrow>
               Some (Inr (w'\<lparr>sample_counter :=
                               sample_counter w' + int (length samples) div unit_size w'\<rparr>)))"

text \<open>\<^verbatim>\<open>pattern * count\<close>: a count of 0 or less gives the empty sequence.\<close>

definition py_repeat :: "'a list \<Rightarrow> int \<Rightarrow> 'a list" where
  "py_repeat xs n = concat (replicate (nat n) xs)"

definition fill_sample :: "byte list \<Rightarrow> int \<Rightarrow> writer \<Rightarrow> (pyerror + writer) option" where
  "fill_sample pattern count w =
     (let total_length = int (length pattern) * count in
      if unit_size w = 0 then Some (Inl ZeroDivisionError)
      else if total_length mod unit_size w \<noteq> 0
      then Some (Inl (ValueError ''Unaligned sample write.''))
      else case write_samples (py_repeat pattern count) w of
             None \<Rightarrow> None
           | Some (Inl e) \<Rightarrow> Some (Inl e)
           | Some (Inr w') \<Rightarrow>
               Some (Inr (w'\<lparr>sample_counter :=
                               sample_counter w' + total_length div unit_size w'\<rparr>)))"

definition sample_count :: "writer \<Rightarrow> int" where
  "sample_count w = sample_counter w"

definition close :: "writer \<Rightarrow> writer" where
  "close w = (let w' = finalize_current_slice w in w'\<lparr>zip_sr := zip_close (zip_sr w')\<rparr>)"

section \<open>USBSignaling\<close>

text \<open>
  The encoder holds whatever object its constructor was given as \<^verbatim>\<open>sr\<close>. Objects
  live in a store: \<open>PyRef a\<close> is the object at address \<open>a\<close>, which is a
  \<^verbatim>\<open>SimpleSRWriter\<close> when the store has a writer there and an object of another class
  otherwise. The module-level name \<^verbatim>\<open>sr\<close> is \<open>global_sr\<close>, \<open>None\<close> while unbound.
\<close>

datatype pyval = PyStr string | PyRef nat

record usbsignaling =
  state :: char
  enc_sr :: pyval
  c2s :: "char \<rightharpoonup> byte"
  interpolate :: int

record world =
  heap :: "nat \<rightharpoonup> writer"
  global_sr :: "pyval option"

type_synonym machine = "usbsignaling \<times> world"

text \<open>
  A method is a function from the machine before the call to the outcome and the machine
  after it: \<open>Inl e\<close> when \<open>e\<close> was raised (with the machine as the raise left it),
  \<open>Inr x\<close> when \<open>x\<close> was returned, and \<open>None\<close> when the call does not return.
\<close>

type_synonym 'a action = "machine \<Rightarrow> ((pyerror + 'a) \<times> machine) option"

definition then_do :: "'a action \<Rightarrow> ('a \<Rightarrow> 'b action) \<Rightarrow> 'b action" where
  "then_do f g m =
     (case f m of
        None \<Rightarrow> None
      | Some (Inl e, m') \<Rightarrow> Some (Inl e, m')
      | Some (Inr x, m') \<Rightarrow> g x m')"

definition CHIRP_TO_SAMPLE :: "string \<rightharpoonup> (char \<rightharpoonup> byte)" where
  "CHIRP_TO_SAMPLE =
     [''ls'' \<mapsto> [CHR ''j'' \<mapsto> 1, CHR ''k'' \<mapsto> 2, CHR ''s'' \<mapsto> 0, CHR ''S'' \<mapsto> 3],
      ''fs'' \<mapsto> [CHR ''j'' \<mapsto> 2, CHR ''k'' \<mapsto> 1, CHR ''s'' \<mapsto> 0, CHR ''S'' \<mapsto> 3]]"

text \<open>
  \<^verbatim>\<open>__init__(self, sr, interpolate, signaling='fs')\<close>: the third argument is optional,
  \<open>None\<close> when the caller leaves it out.
\<close>

definition USBSignaling_init :: "pyval \<Rightarrow> int \<Rightarrow> string option \<Rightarrow> pyerror + usbsignaling" where
  "USBSignaling_init sr interp signaling =
     (let sig = (case signaling of None \<Rightarrow> ''fs'' | Some s \<Rightarrow> s) in
      case CHIRP_TO_SAMPLE sig of
        None \<Rightarrow> Inl (KeyError sig)
      | Some table \<Rightarrow> Inr \<lparr>state = CHR ''j'', enc_sr = sr, c2s = table, interpolate = interp\<rparr>)"

text \<open>
  The argument of \<^verbatim>\<open>emit_chirps\<close> is a string or a generator. A generator is the
  function that runs it to exhaustion on the encoder it closes over: the symbols it
  yields and the encoder after its side effects, or the error it raises.
\<close>

datatype pyseq =
    StrSeq string
  | GenSeq "usbsignaling \<Rightarrow> pyerror + string \<times> usbsignaling"

definition run_seq :: "pyseq \<Rightarrow> usbsignaling \<Rightarrow> pyerror + string \<times> usbsignaling" where
  "run_seq seq self = (case seq of StrSeq s \<Rightarrow> Inr (s, self) | GenSeq g \<Rightarrow> g self)"

text \<open>
  \<^verbatim>\<open>bytes(_double(seq))\<close>: each symbol is looked up once per copy, so a symbol outside
  the table raises KeyError only when \<^verbatim>\<open>range(self._interpolate)\<close> is not empty.
\<close>

fun double :: "(char \<rightharpoonup> byte) \<Rightarrow> int \<Rightarrow> string \<Rightarrow> pyerror + byte list" where
  "double table n [] = Inr []"
| "double table n (c # cs) =
     (if n \<le> 0 then double table n cs
      else case table c of
             None \<Rightarrow> Inl (KeyError [c])
           | Some v \<Rightarrow>
               (case double table n cs of
                  Inl e \<Rightarrow> Inl e
                | Inr bs \<Rightarrow> Inr (replicate (nat n) v @ bs)))"

text \<open>
  \<^verbatim>\<open>emit_chirps\<close>. The name \<^verbatim>\<open>sr\<close> in its body is the module-level one, looked up and
  asked for \<^verbatim>\<open>write_samples\<close> before the argument is evaluated. The generator's last
  side effect happens only when \<^verbatim>\<open>_double\<close> has consumed it whole, so an error during
  the conversion leaves the encoder as it was.
\<close>

definition emit_chirps :: "pyseq \<Rightarrow> bool \<Rightarrow> unit action" where
  "emit_chirps seq update_state m =
     (let (self, wd) = m in
      case global_sr wd of
        None \<Rightarrow> Some (Inl (NameError ''sr''), m)
      | Some (PyStr s) \<Rightarrow> Some (Inl (AttributeError ''write_samples''), m)
      | Some (PyRef a) \<Rightarrow>
          (case heap wd a of
             None \<Rightarrow> Some (Inl (AttributeError ''write_samples''), m)
           | Some w \<Rightarrow>
               (case run_seq seq self of
                  Inl e \<Rightarrow> Some (Inl e, m)
                | Inr (chirps, self') \<Rightarrow>
                    (case double (c2s self) (interpolate self) chirps of
                       Inl e \<Rightarrow> Some (Inl e, m)
                     | Inr samples \<Rightarrow>
                         (case write_samples samples w of
                            None \<Rightarrow> None
                          | Some (Inl e) \<Rightarrow> Some (Inl e, (self', wd))
                          | Some (Inr w') \<Rightarrow>
                              (let wd' = wd\<lparr>heap := (heap wd)(a \<mapsto> w')\<rparr> in
                               if update_state
                               then (case seq of
                                       StrSeq s \<Rightarrow>
                                         if s = [] then Some (Inl IndexError, (self', wd'))
                                         else Some (Inr (), (self'\<lparr>state := last s\<rparr>, wd'))
                                     | GenSeq g \<Rightarrow> Some (Inl TypeError, (self', wd')))
                               else Some (Inr (), (self', wd'))))))))"

definition emit_sync :: "unit action" where
  "emit_sync = emit_chirps (StrSeq ''kjkjkjkk'') True"

definition emit_eop :: "unit action" where
  "emit_eop = emit_chirps (StrSeq ''ssj'') True"

definition emit_stall :: "int \<Rightarrow> unit action" where
  "emit_stall cycles m =
     (if cycles < 0 then Some (Inl (ValueError ''Cycles must be 0 or positive.''), m)
      else if cycles = 0 then Some (Inr (), m)
      else emit_chirps (StrSeq (replicate (nat cycles) (state (fst m)))) True m)"

text \<open>
  The generator \<^verbatim>\<open>_to_chirp\<close> of \<^verbatim>\<open>emit_bytes\<close>. \<^verbatim>\<open>'jk'.index(self._state)\<close> raises
  ValueError for a state that is neither \<^verbatim>\<open>j\<close> nor \<^verbatim>\<open>k\<close>. The working level
  \<^verbatim>\<open>tmp\<close> and the counter \<^verbatim>\<open>stuff\<close> are Python integers; \<^verbatim>\<open>~tmp & 1\<close> is
  \<open>NOT tmp AND 1\<close>.
\<close>

definition jk_index :: "char \<Rightarrow> pyerror + int" where
  "jk_index c =
     (if c = CHR ''j'' then Inr 0
      else if c = CHR ''k'' then Inr 1
      else Inl (ValueError ''substring not found''))"

definition jk_at :: "int \<Rightarrow> char" where
  "jk_at tmp = ''jk'' ! nat tmp"

text \<open>The body of \<^verbatim>\<open>for _ in range(8)\<close>, run \<open>n\<close> times on one byte.\<close>

fun to_chirp_bits :: "nat \<Rightarrow> int \<Rightarrow> int \<Rightarrow> int \<Rightarrow> string \<times> int \<times> int" where
  "to_chirp_bits 0 byte tmp stuff = ([], tmp, stuff)"
| "to_chirp_bits (Suc n) byte tmp stuff =
     (let (tmp1, stuff1) =
            (if byte AND 1 = 0 then (NOT tmp AND 1, 0) else (tmp, stuff + 1));
          out1 = [jk_at tmp1];
          (tmp2, out2) =
            (if stuff1 \<ge> 6 then (NOT tmp1 AND 1, out1 @ [jk_at (NOT tmp1 AND 1)])
             else (tmp1, out1));
          (rest, tmp', stuff') = to_chirp_bits n (drop_bit 1 byte) tmp2 stuff1
      in (out2 @ rest, tmp', stuff'))"

fun to_chirp_bytes :: "byte list \<Rightarrow> int \<Rightarrow> int \<Rightarrow> string \<times> int \<times> int" where
  "to_chirp_bytes [] tmp stuff = ([], tmp, stuff)"
| "to_chirp_bytes (b # bs) tmp stuff =
     (let (out1, tmp1, stuff1) = to_chirp_bits 8 (uint b) tmp stuff;
          (out2, tmp2, stuff2) = to_chirp_bytes bs tmp1 stuff1
      in (out1 @ out2, tmp2, stuff2))"

definition to_chirp :: "byte list \<Rightarrow> usbsignaling \<Rightarrow> pyerror + string \<times> usbsignaling" where
  "to_chirp seq self =
     (case jk_index (state self) of
        Inl e \<Rightarrow> Inl e
      | Inr tmp \<Rightarrow>
          (let (out, tmp', stuff') = to_chirp_bytes seq tmp 0
           in Inr (out, self\<lparr>state := jk_at tmp'\<rparr>)))"

definition emit_bytes :: "byte list \<Rightarrow> unit action" where
  "emit_bytes seq = emit_chirps (GenSeq (to_chirp seq)) False"

section \<open>The script\<close>

definition USB_SPEED :: "string \<rightharpoonup> int" where
  "USB_SPEED = [''ls'' \<mapsto> 1500000, ''fs'' \<mapsto> 12000000]"

record args =
  arg_pcap :: string
  arg_sr :: string
  arg_signaling :: string
  arg_interpolate :: int
  arg_start_padding :: int
  arg_end_padding :: int

text \<open>
  A packet of the capture, as the script reads it: \<^verbatim>\<open>pkt.time\<close>, a decimal number of
  seconds, and \<^verbatim>\<open>pkt.load\<close>. Decimals are exact rationals here.
\<close>

record packet =
  time :: rat
  load :: "byte list"

text \<open>\<^verbatim>\<open>round(x)\<close> on a decimal: to the nearest integer, a tie to the even one.\<close>

definition py_round :: "rat \<Rightarrow> int" where
  "py_round x =
     (let f = \<lfloor>x\<rfloor>; d = x - of_int f in
      if d < 1 / 2 then f
      else if 1 / 2 < d then f + 1
      else if even f then f else f + 1)"

text \<open>\<^verbatim>\<open>sr.sample_count // n\<close>, with \<^verbatim>\<open>sr\<close> the module-level name.\<close>

definition sample_count_ticks :: "int \<Rightarrow> int action" where
  "sample_count_ticks n m =
     (case global_sr (snd m) of
        None \<Rightarrow> Some (Inl (NameError ''sr''), m)
      | Some (PyStr s) \<Rightarrow> Some (Inl (AttributeError ''sample_count''), m)
      | Some (PyRef a) \<Rightarrow>
          (case heap (snd m) a of
             None \<Rightarrow> Some (Inl (AttributeError ''sample_count''), m)
           | Some w \<Rightarrow>
               if n = 0 then Some (Inl ZeroDivisionError, m)
               else Some (Inr (sample_count w div n), m)))"

text \<open>The local variables the loop carries from one packet to the next.\<close>

record timing =
  begins_at_ticks :: int
  ends_at_ticks :: int
  last_pkt_at :: rat

definition overrun_message :: string where
  "overrun_message = ''Previous packet cannot be trasferred on time. Wrong signaling type?''"

text \<open>One round of \<^verbatim>\<open>for pkt in tqdm(pcap)\<close>.\<close>

definition timing_step :: "int \<Rightarrow> int \<Rightarrow> packet \<Rightarrow> timing \<Rightarrow> timing action" where
  "timing_step speed interp pkt t m =
     (let delta_interpacket = time pkt - last_pkt_at t;
          delta_ticks_interpacket = py_round (delta_interpacket * of_int speed);
          delta_ticks_intrapacket = ends_at_ticks t - begins_at_ticks t
      in if delta_ticks_intrapacket > delta_ticks_interpacket
         then Some (Inl (RuntimeError overrun_message), m)
         else
           then_do (emit_stall (delta_ticks_interpacket - delta_ticks_intrapacket)) (\<lambda>_.
           then_do (sample_count_ticks interp) (\<lambda>begins.
           then_do emit_sync (\<lambda>_.
           then_do (emit_bytes (load pkt)) (\<lambda>_.
           then_do emit_eop (\<lambda>_.
           then_do (sample_count_ticks interp) (\<lambda>ends m'.
             Some (Inr \<lparr>begins_at_ticks = begins, ends_at_ticks = ends,
                        last_pkt_at = time pkt\<rparr>, m'))))))) m)"

fun timing_loop :: "int \<Rightarrow> int \<Rightarrow> packet list \<Rightarrow> timing \<Rightarrow> timing action" where
  "timing_loop speed interp [] t m = Some (Inr t, m)"
| "timing_loop speed interp (pkt # pcap) t m =
     (case timing_step speed interp pkt t m of
        None \<Rightarrow> None
      | Some (Inl e, m') \<Rightarrow> Some (Inl e, m')
      | Some (Inr t', m') \<Rightarrow> timing_loop speed interp pcap t' m')"

text \<open>
  The body of the \<^verbatim>\<open>with\<close> statement, from the encoder built by
  \<^verbatim>\<open>USBSignaling(args.signaling, args.interpolate)\<close> on: first the start padding and
  the loop over the packets, then the end padding.
\<close>

definition run_packets :: "args \<Rightarrow> int \<Rightarrow> packet list \<Rightarrow> rat \<Rightarrow> timing action" where
  "run_packets a speed pcap first_at =
     then_do (emit_stall (arg_start_padding a)) (\<lambda>_.
     then_do (sample_count_ticks (arg_interpolate a)) (\<lambda>begins.
     timing_loop speed (arg_interpolate a) pcap
       \<lparr>begins_at_ticks = begins, ends_at_ticks = begins, last_pkt_at = first_at\<rparr>))"

definition with_body :: "args \<Rightarrow> int \<Rightarrow> packet list \<Rightarrow> rat \<Rightarrow> unit action" where
  "with_body a speed pcap first_at =
     then_do (run_packets a speed pcap first_at) (\<lambda>_. emit_stall (arg_end_padding a))"

definition main_usb :: "args \<Rightarrow> pyerror + usbsignaling" where
  "main_usb a = USBSignaling_init (PyStr (arg_signaling a)) (arg_interpolate a) None"

definition main_writer :: "args \<Rightarrow> int \<Rightarrow> writer" where
  "main_writer a speed =
     SimpleSRWriter_init (arg_sr a) [''D-'', ''D+''] (speed * arg_interpolate a) True 16777216"

text \<open>
  \<^verbatim>\<open>contextlib.closing\<close> calls \<^verbatim>\<open>close()\<close> on the writer it was given, at address 0
  here, when the body returns and when it raises.
\<close>

definition closing_exit :: "world \<Rightarrow> world" where
  "closing_exit wd =
     (case heap wd 0 of
        None \<Rightarrow> wd
      | Some w \<Rightarrow> wd\<lparr>heap := (heap wd)(0 \<mapsto> close w)\<rparr>)"

text \<open>The store once the \<^verbatim>\<open>with\<close> statement has bound \<^verbatim>\<open>sr\<close> to the new writer.\<close>

definition main_world :: "args \<Rightarrow> int \<Rightarrow> world" where
  "main_world a speed = \<lparr>heap = [0 \<mapsto> main_writer a speed], global_sr = Some (PyRef 0)\<rparr>"

text \<open>
  The script from the parsed arguments and the packets \<^verbatim>\<open>rdpcap\<close> returned, to the
  exception that ends it, if any, and the store it leaves. An unknown signaling ends in
  \<^verbatim>\<open>p.error\<close>, which exits with status 2; an empty capture fails at \<^verbatim>\<open>pcap[0]\<close>.
\<close>

definition main :: "args \<Rightarrow> packet list \<Rightarrow> ((pyerror + unit) \<times> world) option" where
  "main a pcap =
     (let wd0 = \<lparr>heap = Map.empty, global_sr = None\<rparr> in
      case USB_SPEED (arg_signaling a) of
        None \<Rightarrow> Some (Inl (SystemExit 2), wd0)
      | Some speed \<Rightarrow>
          (case pcap of
             [] \<Rightarrow> Some (Inl IndexError, wd0)
           | first # _ \<Rightarrow>
               (case main_usb a of
                  Inl e \<Rightarrow> Some (Inl e, closing_exit (main_world a speed))
                | Inr usb \<Rightarrow>
                    (case with_body a speed pcap (time first) (usb, main_world a speed) of
                       None \<Rightarrow> None
                     | Some (r, (usb', wd')) \<Rightarrow> Some (r, closing_exit wd')))))"

section \<open>Observations\<close>

text \<open>
  What a reader of the archive sees of a writer: the bodies of its slice entries, in
  order (every entry but the two headers), and all sample bytes it was given, flushed or
  still in the buffer.
\<close>

definition raw_bytes :: "entry_body \<Rightarrow> byte list" where
  "raw_bytes b = (case b of Raw bs \<Rightarrow> bs | Ini _ \<Rightarrow> [])"

definition slices :: "writer \<Rightarrow> byte list list" where
  "slices w = map (raw_bytes \<circ> snd)
     (filter (\<lambda>e. fst e \<noteq> ''version'' \<and> fst e \<noteq> ''metadata'') (entries (zip_sr w)))"

definition written :: "writer \<Rightarrow> byte list" where
  "written w = concat (slices w) @ slice_buffer w"

text \<open>A sequence of \<^verbatim>\<open>write_samples\<close> calls on one writer; the first exception ends it.\<close>

fun write_all :: "byte list list \<Rightarrow> writer \<Rightarrow> (pyerror + writer) option" where
  "write_all [] w = Some (Inr w)"
| "write_all (s # ss) w =
     (case write_samples s w of
        None \<Rightarrow> None
      | Some (Inl e) \<Rightarrow> Some (Inl e)
      | Some (Inr w') \<Rightarrow> write_all ss w')"

text \<open>
  The writers the loop of \<^verbatim>\<open>write_samples\<close> is sure to leave: a positive slice limit,
  a buffer within it, a unit size that is not 0.
\<close>

definition wf_writer :: "writer \<Rightarrow> bool" where
  "wf_writer w \<longleftrightarrow> 0 < slice_limit w \<and> int (length (slice_buffer w)) \<le> slice_limit w
     \<and> unit_size w \<noteq> 0"

text \<open>
  What one run of the loop does to a writer: the configuration and the counter stay,
  the new slice entries are all full, and the entries and the buffer together hold the
  old buffer followed by the input.
\<close>

definition loop_post :: "writer \<Rightarrow> byte list \<Rightarrow> writer \<Rightarrow> bool" where
  "loop_post w mv w' \<longleftrightarrow>
     slice_limit w' = slice_limit w \<and> unit_size w' = unit_size w
     \<and> sample_counter w' = sample_counter w
     \<and> closed (zip_sr w') = closed (zip_sr w)
     \<and> int (length (slice_buffer w')) \<le> slice_limit w
     \<and> (\<exists>new. slices w' = slices w @ new
           \<and> (\<forall>s \<in> set new. int (length s) = slice_limit w)
           \<and> concat new @ slice_buffer w' = slice_buffer w @ mv
           \<and> (new = [] \<longleftrightarrow> int (length (slice_buffer w)) + int (length mv) \<le> slice_limit w))"

text \<open>
  The decoder the round-trip property speaks of, written from the specification's words
  and not from the script, which has no decoder: NRZI decoding reads a symbol equal to the
  previous level as a 1 and a change as a 0; unstuffing removes the bit that follows each
  run of six consecutive decoded 1-bits. The payload is compared bit by bit, each byte
  least significant bit first.
\<close>

fun spec_nrzi_decode :: "char \<Rightarrow> string \<Rightarrow> bool list" where
  "spec_nrzi_decode prev [] = []"
| "spec_nrzi_decode prev (c # cs) = (c = prev) # spec_nrzi_decode c cs"

fun spec_unstuff :: "nat \<Rightarrow> bool list \<Rightarrow> bool list" where
  "spec_unstuff ones [] = []"
| "spec_unstuff ones (b # bs) =
     (if ones = 6 then spec_unstuff 0 bs
      else b # spec_unstuff (if b then Suc ones else 0) bs)"

definition spec_decode :: "char \<Rightarrow> string \<Rightarrow> bool list" where
  "spec_decode level chirps = spec_unstuff 0 (spec_nrzi_decode level chirps)"

definition payload_bits :: "byte list \<Rightarrow> bool list" where
  "payload_bits payload = concat (map (\<lambda>b. map (bit b) [0..<8]) payload)"

text \<open>
  A machine to run the encoder on: the writer the script builds for full speed at four
  samples per cycle, at address 0 and bound to \<^verbatim>\<open>sr\<close>; a second new writer at
  address 1; and a full-speed encoder with one sample per symbol that was constructed
  with the second writer.
\<close>

definition example_writer :: writer where
  "example_writer = SimpleSRWriter_init ''out.sr'' [''D-'', ''D+''] 48000000 True 16777216"

definition example_world :: world where
  "example_world =
     \<lparr>heap = [0 \<mapsto> example_writer, 1 \<mapsto> example_writer], global_sr = Some (PyRef 0)\<rparr>"

definition example_usb :: usbsignaling where
  "example_usb =
     \<lparr>state = CHR ''j'', enc_sr = PyRef 1,
      c2s = [CHR ''j'' \<mapsto> 2, CHR ''k'' \<mapsto> 1, CHR ''s'' \<mapsto> 0, CHR ''S'' \<mapsto> 3],
      interpolate = 1\<rparr>"

text \<open>
  Captures to run the script on, with the default options at full speed (12 cycles per
  microsecond), timestamps in seconds. The second packet of \<open>capture_one\<close> comes one
  microsecond after the first; the third packet of \<open>capture_two\<close> comes half a
  microsecond after the second, which comes ten microseconds after the first.
\<close>

definition example_args :: args where
  "example_args =
     \<lparr>arg_pcap = ''capture.pcap'', arg_sr = ''out.sr'', arg_signaling = ''fs'',
      arg_interpolate = 4, arg_start_padding = 4, arg_end_padding = 0\<rparr>"

definition capture_one :: "packet list" where
  "capture_one = [\<lparr>time = 0, load = [0x2D]\<rparr>, \<lparr>time = 1 / 1000000, load = [0xD2]\<rparr>]"

definition capture_two :: "packet list" where
  "capture_two =
     [\<lparr>time = 0, load = [0x2D]\<rparr>, \<lparr>time = 10 / 1000000, load = [0xFF]\<rparr>,
      \<lparr>time = 105 / 10000000, load = [0xD2]\<rparr>]"

text \<open>
  The machines the script's loop runs on: \<^verbatim>\<open>sr\<close> is bound to the writer at address 0,
  which is well formed, has unit size 1 and an open archive; the line state is J or K;
  the table has the samples of J, K and SE0; there is at least one sample per symbol.
  \<open>ticks\<close> is the sample counter of that writer, \<open>held\<close> the sample bytes it was given.
\<close>

definition ready :: "machine \<Rightarrow> bool" where
  "ready m \<longleftrightarrow>
     global_sr (snd m) = Some (PyRef 0)
     \<and> (case heap (snd m) 0 of
          None \<Rightarrow> False
        | Some w \<Rightarrow> wf_writer w \<and> unit_size w = 1 \<and> \<not> closed (zip_sr w))
     \<and> (state (fst m) = CHR ''j'' \<or> state (fst m) = CHR ''k'')
     \<and> c2s (fst m) CHR ''j'' \<noteq> None \<and> c2s (fst m) CHR ''k'' \<noteq> None
     \<and> c2s (fst m) CHR ''s'' \<noteq> None
     \<and> 0 < interpolate (fst m)"

definition ticks :: "machine \<Rightarrow> int" where
  "ticks m = (case heap (snd m) 0 of None \<Rightarrow> 0 | Some w \<Rightarrow> sample_count w)"

definition held :: "machine \<Rightarrow> byte list" where
  "held m = (case heap (snd m) 0 of None \<Rightarrow> [] | Some w \<Rightarrow> written w)"

text \<open>
  The cycles the script spends on a packet: 8 for SYNC, one per symbol of the payload,
  which is encoded from line state K (index 1), where SYNC leaves the line, and 3 for EOP.
  A capture overruns when some packet's rounded distance from the one before is less than
  the cycles spent on the one before; the loop starts with no cycles spent.
\<close>

definition duration :: "packet \<Rightarrow> int" where
  "duration pkt = 8 + int (length (fst (to_chirp_bytes (load pkt) 1 0))) + 3"

fun overruns :: "int \<Rightarrow> rat \<Rightarrow> int \<Rightarrow> packet list \<Rightarrow> bool" where
  "overruns speed previous_at consumed [] = False"
| "overruns speed previous_at consumed (pkt # pcap) =
     (py_round ((time pkt - previous_at) * of_int speed) < consumed
      \<or> overruns speed (time pkt) (duration pkt) pcap)"

text \<open>
  The sample bytes of a string of symbols at \<open>n\<close> samples per symbol: \<open>n\<close> copies of
  the sample of each symbol, in order. It is used for strings whose symbols are all in
  the table; a symbol outside the table would count as 0.
\<close>

definition chirp_samples :: "(char \<rightharpoonup> byte) \<Rightarrow> int \<Rightarrow> string \<Rightarrow> byte list" where
  "chirp_samples table n s =
     concat (map (\<lambda>c. replicate (nat n) (case table c of None \<Rightarrow> 0 | Some v \<Rightarrow> v)) s)"

text \<open>
  The symbols of one packet on the line: SYNC, the payload encoded from line state K, EOP.
  The symbols of a capture up to the packet that overruns, if any: before each packet the
  line idles in J for the cycles between the end of the packet before and its own start.
\<close>

definition packet_chirps :: "packet \<Rightarrow> string" where
  "packet_chirps pkt = ''kjkjkjkk'' @ fst (to_chirp_bytes (load pkt) 1 0) @ ''ssj''"

fun emitted :: "int \<Rightarrow> rat \<Rightarrow> int \<Rightarrow> packet list \<Rightarrow> string" where
  "emitted speed previous_at consumed [] = []"
| "emitted speed previous_at consumed (pkt # pcap) =
     (if py_round ((time pkt - previous_at) * of_int speed) < consumed then []
      else replicate (nat (py_round ((time pkt - previous_at) * of_int speed) - consumed))
             CHR ''j''
           @ packet_chirps pkt @ emitted speed (time pkt) (duration pkt) pcap)"
section \<open>Lemmas about the writer\<close>

lemma slice_name_not_header:
  "cf @ ''-'' @ n \<noteq> ''version''" "cf @ ''-'' @ n \<noteq> ''metadata''"
proof -
  have "CHR ''-'' \<in> set (cf @ ''-'' @ n)" by simp
  moreover have "CHR ''-'' \<notin> set ''version''" "CHR ''-'' \<notin> set ''metadata''" by simp_all
  ultimately show "cf @ ''-'' @ n \<noteq> ''version''" "cf @ ''-'' @ n \<noteq> ''metadata''" by metis+
qed

lemma slices_finalize:
  "slices (finalize_current_slice w) = slices w @ [slice_buffer w]"
  using slice_name_not_header
  by (simp add: slices_def finalize_current_slice_def zip_write_def raw_bytes_def)

lemma slices_update [simp]:
  "slices (w\<lparr>slice_buffer := b\<rparr>) = slices w"
  "slices (w\<lparr>sample_counter := c\<rparr>) = slices w"
  by (simp_all add: slices_def)

lemma finalize_fields:
  "slice_buffer (finalize_current_slice w) = []"
  "slice_limit (finalize_current_slice w) = slice_limit w"
  "unit_size (finalize_current_slice w) = unit_size w"
  "sample_counter (finalize_current_slice w) = sample_counter w"
  "closed (zip_sr (finalize_current_slice w)) = closed (zip_sr w)"
  by (simp_all add: finalize_current_slice_def zip_write_def)

lemma write_loop_fits:
  assumes "int (length mv) \<le> slice_limit w - int (length (slice_buffer w))"
  shows "write_loop w mv = Some (w\<lparr>slice_buffer := slice_buffer w @ mv\<rparr>)"
  using assms by (subst write_loop.simps) (simp add: Let_def)

lemma write_loop_split:
  assumes "slice_limit w - int (length (slice_buffer w)) < int (length mv)"
    and "int (length (slice_buffer w)) \<le> slice_limit w"
  shows "write_loop w mv =
           write_loop
             (finalize_current_slice
                (w\<lparr>slice_buffer := slice_buffer w
                      @ take (nat (slice_limit w) - length (slice_buffer w)) mv\<rparr>))
             (drop (nat (slice_limit w) - length (slice_buffer w)) mv)"
proof -
  have "slice_bound (slice_limit w - int (length (slice_buffer w))) mv
          = nat (slice_limit w) - length (slice_buffer w)"
    using assms by (simp add: slice_bound_def nat_diff_distrib')
  then show ?thesis
    using assms by (subst write_loop.simps) (simp add: Let_def slice_to_def slice_from_def)
qed

lemma write_loop_room:
  assumes "int (length (slice_buffer w)) < slice_limit w"
  shows "\<exists>w'. write_loop w mv = Some w' \<and> loop_post w mv w'"
  using assms
proof (induction "length mv" arbitrary: w mv rule: less_induct)
  case less
  let ?room = "slice_limit w - int (length (slice_buffer w))"
  show ?case
  proof (cases "int (length mv) \<le> ?room")
    case True
    then have "write_loop w mv = Some (w\<lparr>slice_buffer := slice_buffer w @ mv\<rparr>)"
      by (rule write_loop_fits)
    moreover have "loop_post w mv (w\<lparr>slice_buffer := slice_buffer w @ mv\<rparr>)"
      using True by (simp add: loop_post_def slices_def)
    ultimately show ?thesis by blast
  next
    case False
    let ?k = "nat (slice_limit w) - length (slice_buffer w)"
    let ?w1 = "finalize_current_slice (w\<lparr>slice_buffer := slice_buffer w @ take ?k mv\<rparr>)"
    have k: "0 < ?k" "?k < length mv" using less.prems False by linarith+
    have step: "write_loop w mv = write_loop ?w1 (drop ?k mv)"
      using False less.prems by (intro write_loop_split) simp_all
    have "length (drop ?k mv) < length mv" using k by simp
    moreover have "int (length (slice_buffer ?w1)) < slice_limit ?w1"
      using less.prems by (simp add: finalize_fields)
    ultimately obtain w' where w': "write_loop ?w1 (drop ?k mv) = Some w'"
      "loop_post ?w1 (drop ?k mv) w'"
      using less.hyps by blast
    from w'(2) obtain new where new: "slices w' = slices ?w1 @ new"
      "\<forall>s \<in> set new. int (length s) = slice_limit w"
      "concat new @ slice_buffer w' = drop ?k mv"
      by (auto simp: loop_post_def finalize_fields)
    have full: "int (length (slice_buffer w @ take ?k mv)) = slice_limit w"
      using k less.prems by simp
    have "slices w' = slices w @ ((slice_buffer w @ take ?k mv) # new)"
      using new(1) by (simp add: slices_finalize)
    moreover have "\<forall>s \<in> set ((slice_buffer w @ take ?k mv) # new). int (length s) = slice_limit w"
      using new(2) full by simp
    moreover have "concat ((slice_buffer w @ take ?k mv) # new) @ slice_buffer w' = slice_buffer w @ mv"
      using new(3) by simp
    moreover have "\<not> int (length (slice_buffer w)) + int (length mv) \<le> slice_limit w"
      using False by simp
    ultimately have "loop_post w mv w'"
      using w'(2) unfolding loop_post_def
      by (simp add: finalize_fields)
    then show ?thesis using step w'(1) by simp
  qed
qed

lemma write_loop_returns:
  assumes "0 < slice_limit w" and "int (length (slice_buffer w)) \<le> slice_limit w"
  shows "\<exists>w'. write_loop w mv = Some w' \<and> loop_post w mv w'"
proof (cases "int (length (slice_buffer w)) < slice_limit w")
  case True
  then show ?thesis by (rule write_loop_room)
next
  case full: False
  show ?thesis
  proof (cases "mv = []")
    case True
    then have "write_loop w mv = Some (w\<lparr>slice_buffer := slice_buffer w @ mv\<rparr>)"
      using assms by (intro write_loop_fits) simp
    moreover have "loop_post w mv (w\<lparr>slice_buffer := slice_buffer w @ mv\<rparr>)"
      using True assms by (simp add: loop_post_def slices_def)
    ultimately show ?thesis by blast
  next
    case False
    let ?w1 = "finalize_current_slice (w\<lparr>slice_buffer := slice_buffer w @ take 0 mv\<rparr>)"
    have k0: "nat (slice_limit w) - length (slice_buffer w) = 0" using full by simp
    have "write_loop w mv = write_loop
             (finalize_current_slice
                (w\<lparr>slice_buffer := slice_buffer w
                      @ take (nat (slice_limit w) - length (slice_buffer w)) mv\<rparr>))
             (drop (nat (slice_limit w) - length (slice_buffer w)) mv)"
      using False full assms by (intro write_loop_split) simp_all
    then have step: "write_loop w mv = write_loop ?w1 mv" by (simp only: k0 drop_0)
    have "int (length (slice_buffer ?w1)) < slice_limit ?w1"
      using assms by (simp add: finalize_fields)
    then obtain w' where w': "write_loop ?w1 mv = Some w'" "loop_post ?w1 mv w'"
      using write_loop_room by blast
    from w'(2) obtain new where new: "slices w' = slices ?w1 @ new"
      "\<forall>s \<in> set new. int (length s) = slice_limit w"
      "concat new @ slice_buffer w' = mv"
      by (auto simp: loop_post_def finalize_fields)
    have len: "int (length (slice_buffer w)) = slice_limit w" using full assms by simp
    have "slices w' = slices w @ (slice_buffer w # new)"
      using new(1) by (simp add: slices_finalize)
    moreover have "\<forall>s \<in> set (slice_buffer w # new). int (length s) = slice_limit w"
      using new(2) len by simp
    moreover have "concat (slice_buffer w # new) @ slice_buffer w' = slice_buffer w @ mv"
      using new(3) by simp
    moreover have "\<not> int (length (slice_buffer w)) + int (length mv) \<le> slice_limit w"
      using False len by simp
    ultimately have "loop_post w mv w'"
      using w'(2) unfolding loop_post_def
      by (simp add: finalize_fields)
    then show ?thesis using step w'(1) by simp
  qed
qed


lemma write_samples_returns:
  assumes "wf_writer w" and "int (length samples) mod unit_size w = 0"
  shows "\<exists>w'. write_samples samples w = Some (Inr w') \<and> wf_writer w'
           \<and> slice_limit w' = slice_limit w \<and> unit_size w' = unit_size w
           \<and> closed (zip_sr w') = closed (zip_sr w)
           \<and> sample_counter w' = sample_counter w + int (length samples) div unit_size w
           \<and> (\<exists>new. slices w' = slices w @ new
                 \<and> (\<forall>s \<in> set new. int (length s) = slice_limit w)
                 \<and> concat new @ slice_buffer w' = slice_buffer w @ samples
                 \<and> (new = [] \<longleftrightarrow>
                      int (length (slice_buffer w)) + int (length samples) \<le> slice_limit w))"
proof -
  from assms(1) obtain w1 where w1: "write_loop w samples = Some w1" "loop_post w samples w1"
    using write_loop_returns unfolding wf_writer_def by blast
  let ?w' = "w1\<lparr>sample_counter := sample_counter w1 + int (length samples) div unit_size w1\<rparr>"
  have "write_samples samples w = Some (Inr ?w')"
    using assms w1(1) by (simp add: write_samples_def wf_writer_def)
  moreover have "slices ?w' = slices w1" by (simp add: slices_def)
  ultimately show ?thesis
    using w1(2) assms(1) unfolding loop_post_def wf_writer_def by simp
qed

lemma write_all_returns:
  assumes "wf_writer w" and "\<forall>s \<in> set writes. int (length s) mod unit_size w = 0"
  shows "\<exists>w'. write_all writes w = Some (Inr w') \<and> wf_writer w'
           \<and> slice_limit w' = slice_limit w \<and> unit_size w' = unit_size w
           \<and> closed (zip_sr w') = closed (zip_sr w)
           \<and> sample_counter w' = sample_counter w + (\<Sum>s\<leftarrow>writes. int (length s) div unit_size w)
           \<and> (\<exists>new. slices w' = slices w @ new
                 \<and> (\<forall>s \<in> set new. int (length s) = slice_limit w)
                 \<and> concat new @ slice_buffer w' = slice_buffer w @ concat writes
                 \<and> (new = [] \<longleftrightarrow>
                      int (length (slice_buffer w)) + int (length (concat writes)) \<le> slice_limit w))"
  using assms
proof (induction writes arbitrary: w)
  case Nil
  then show ?case by (simp add: wf_writer_def)
next
  case (Cons s writes)
  from Cons.prems obtain w1 new1 where w1: "write_samples s w = Some (Inr w1)" "wf_writer w1"
      "slice_limit w1 = slice_limit w" "unit_size w1 = unit_size w"
      "closed (zip_sr w1) = closed (zip_sr w)"
      "sample_counter w1 = sample_counter w + int (length s) div unit_size w"
      "slices w1 = slices w @ new1" "\<forall>x \<in> set new1. int (length x) = slice_limit w"
      "concat new1 @ slice_buffer w1 = slice_buffer w @ s"
      "new1 = [] \<longleftrightarrow> int (length (slice_buffer w)) + int (length s) \<le> slice_limit w"
    using write_samples_returns [of w s] by auto
  have "\<forall>x \<in> set writes. int (length x) mod unit_size w1 = 0"
    using Cons.prems(2) w1(4) by simp
  with Cons.IH [OF w1(2)] obtain w' new2 where w': "write_all writes w1 = Some (Inr w')"
      "wf_writer w'" "slice_limit w' = slice_limit w1" "unit_size w' = unit_size w1"
      "closed (zip_sr w') = closed (zip_sr w1)"
      "sample_counter w' = sample_counter w1 + (\<Sum>x\<leftarrow>writes. int (length x) div unit_size w1)"
      "slices w' = slices w1 @ new2" "\<forall>x \<in> set new2. int (length x) = slice_limit w1"
      "concat new2 @ slice_buffer w' = slice_buffer w1 @ concat writes"
      "new2 = [] \<longleftrightarrow> int (length (slice_buffer w1)) + int (length (concat writes)) \<le> slice_limit w1"
    by blast
  have run: "write_all (s # writes) w = Some (Inr w')" using w1(1) w'(1) by simp
  have sl: "slices w' = slices w @ (new1 @ new2)" using w1(7) w'(7) by simp
  have full: "\<forall>x \<in> set (new1 @ new2). int (length x) = slice_limit w"
    using w1(8) w'(8) w1(3) by auto
  have cat: "concat (new1 @ new2) @ slice_buffer w' = slice_buffer w @ concat (s # writes)"
  proof -
    have "concat (new1 @ new2) @ slice_buffer w' = concat new1 @ (concat new2 @ slice_buffer w')"
      by simp
    also have "\<dots> = (concat new1 @ slice_buffer w1) @ concat writes" using w'(9) by simp
    also have "\<dots> = slice_buffer w @ concat (s # writes)" using w1(9) by simp
    finally show ?thesis .
  qed
  have lw1: "int (length (slice_buffer w1)) \<le> slice_limit w" 
    using w1(2,3) by (simp add: wf_writer_def)
  have len1: "int (length (concat new1)) + int (length (slice_buffer w1))
                = int (length (slice_buffer w)) + int (length s)"
    using arg_cong [OF w1(9), of length] by simp
  have none: "new1 @ new2 = [] \<longleftrightarrow>
      int (length (slice_buffer w)) + int (length (concat (s # writes))) \<le> slice_limit w"
  proof (cases "new1 = []")
    case True
    then show ?thesis using w1(10) w'(10) w1(3) len1 lw1 by auto
  next
    case False
    then show ?thesis using w1(10) by auto
  qed
  show ?case
    using run w'(2) w'(3) w1(3) w'(4) w1(4) w'(5) w1(5) w'(6) w1(6) sl full cat none
    by (simp only: sum_list.Cons list.map) (auto simp add: w1(4))
qed

lemma init_fields:
  "slice_limit (SimpleSRWriter_init filename chans rate overwrite limit) = limit"
  "slice_buffer (SimpleSRWriter_init filename chans rate overwrite limit) = []"
  "slices (SimpleSRWriter_init filename chans rate overwrite limit) = []"
  "sample_counter (SimpleSRWriter_init filename chans rate overwrite limit) = 0"
  "closed (zip_sr (SimpleSRWriter_init filename chans rate overwrite limit)) = False"
  by (simp_all add: SimpleSRWriter_init_def Let_def slices_def zip_write_def ZipFile_def)

lemma init_unit_size_pos:
  "chans \<noteq> [] \<Longrightarrow> 0 < unit_size (SimpleSRWriter_init filename chans rate overwrite limit)"
proof -
  assume "chans \<noteq> []"
  then have "0 < int (length chans)" by simp
  then have "(- int (length chans)) div 8 < 0" by linarith
  then show ?thesis by (simp add: SimpleSRWriter_init_def Let_def)
qed

lemma close_fields:
  "slices (close w) = slices w @ [slice_buffer w]"
  "closed (zip_sr (close w))"
  "slice_buffer (close w) = []"
  "sample_counter (close w) = sample_counter w"
  using slices_finalize [of w]
  by (simp_all add: close_def Let_def zip_close_def slices_def finalize_current_slice_def zip_write_def)

lemma write_samples_written:
  assumes "wf_writer w" and "int (length samples) mod unit_size w = 0"
  shows "\<exists>w'. write_samples samples w = Some (Inr w') \<and> wf_writer w'
           \<and> slice_limit w' = slice_limit w \<and> unit_size w' = unit_size w
           \<and> closed (zip_sr w') = closed (zip_sr w)
           \<and> sample_counter w' = sample_counter w + int (length samples) div unit_size w
           \<and> written w' = written w @ samples"
proof -
  from write_samples_returns [OF assms]
  obtain w' new where w': "write_samples samples w = Some (Inr w')" "wf_writer w'"
      "slice_limit w' = slice_limit w" "unit_size w' = unit_size w"
      "closed (zip_sr w') = closed (zip_sr w)"
      "sample_counter w' = sample_counter w + int (length samples) div unit_size w"
      "slices w' = slices w @ new" "concat new @ slice_buffer w' = slice_buffer w @ samples"
    by blast
  have "written w' = concat (slices w) @ (concat new @ slice_buffer w')"
    using w'(7) by (simp add: written_def)
  then have "written w' = written w @ samples"
    using w'(8) by (simp add: written_def)
  then show ?thesis using w'(1-6) by blast
qed

lemma length_py_repeat:
  "0 \<le> n \<Longrightarrow> int (length (py_repeat xs n)) = int (length xs) * n"
  by (simp add: py_repeat_def length_concat sum_list_replicate)

lemma fill_sample_twice:
  assumes "wf_writer w" and "(int (length pattern) * count) mod unit_size w = 0"
    and "0 \<le> count"
  shows "\<exists>w'. fill_sample pattern count w = Some (Inr w')
           \<and> unit_size w' = unit_size w
           \<and> written w' = written w @ py_repeat pattern count
           \<and> sample_counter w'
               = sample_counter w + 2 * (int (length pattern) * count div unit_size w)"
proof -
  have len: "int (length (py_repeat pattern count)) = int (length pattern) * count"
    using assms(3) by (rule length_py_repeat)
  then have "int (length (py_repeat pattern count)) mod unit_size w = 0"
    using assms(2) by simp
  from write_samples_written [OF assms(1) this]
  obtain w1 where w1: "write_samples (py_repeat pattern count) w = Some (Inr w1)"
      "unit_size w1 = unit_size w"
      "sample_counter w1 = sample_counter w + int (length pattern) * count div unit_size w"
      "written w1 = written w @ py_repeat pattern count"
    using len by auto
  let ?w' = "w1\<lparr>sample_counter :=
                  sample_counter w1 + int (length pattern) * count div unit_size w1\<rparr>"
  have u: "unit_size w \<noteq> 0" using assms(1) by (simp add: wf_writer_def)
  have "fill_sample pattern count w = Some (Inr ?w')"
    using u assms(2) w1(1) by (simp add: fill_sample_def Let_def)
  moreover have "written ?w' = written w1" by (simp add: written_def)
  ultimately show ?thesis using w1(2,3,4) by simp
qed

section \<open>Lemmas about the encoder\<close>

lemma double_replicate:
  "table c = Some v \<Longrightarrow> double table n (replicate k c) = Inr (replicate (k * nat n) v)"
proof (induction k)
  case 0
  then show ?case by simp
next
  case (Suc k)
  then show ?case by (cases "n \<le> 0") (simp_all add: replicate_add)
qed

lemma write_samples_unit:
  assumes "wf_writer w" and "unit_size w = 1"
  shows "\<exists>w'. write_samples samples w = Some (Inr w') \<and> wf_writer w' \<and> unit_size w' = 1
           \<and> slice_limit w' = slice_limit w
           \<and> closed (zip_sr w') = closed (zip_sr w)
           \<and> sample_counter w' = sample_counter w + int (length samples)
           \<and> written w' = written w @ samples"
  using write_samples_written [OF assms(1), of samples] assms(2) by auto

lemma emit_chirps_str:
  assumes "global_sr wd = Some (PyRef a)" and "heap wd a = Some w"
    and "double (c2s u) (interpolate u) s = Inr samples"
    and "write_samples samples w = Some (Inr w')" and "s \<noteq> []"
  shows "emit_chirps (StrSeq s) True (u, wd)
           = Some (Inr (), (u\<lparr>state := last s\<rparr>, wd\<lparr>heap := (heap wd)(a \<mapsto> w')\<rparr>))"
  using assms by (simp add: emit_chirps_def run_seq_def Let_def)

lemma emit_chirps_gen:
  assumes "global_sr wd = Some (PyRef a)" and "heap wd a = Some w"
    and "g u = Inr (chirps, u')"
    and "double (c2s u) (interpolate u) chirps = Inr samples"
    and "write_samples samples w = Some (Inr w')"
  shows "emit_chirps (GenSeq g) False (u, wd)
           = Some (Inr (), (u', wd\<lparr>heap := (heap wd)(a \<mapsto> w')\<rparr>))"
  using assms by (simp add: emit_chirps_def run_seq_def Let_def)

lemma emit_chirps_frame:
  assumes "emit_chirps seq upd (u, wd) = Some (r, (u', wd'))"
  shows "global_sr wd' = global_sr wd
     \<and> (global_sr wd \<noteq> Some (PyRef b) \<longrightarrow> heap wd' b = heap wd b)
     \<and> ((\<forall>v out v'. run_seq seq v = Inr (out, v') \<longrightarrow> enc_sr v' = enc_sr v)
          \<longrightarrow> enc_sr u' = enc_sr u)"
  using assms
  by (auto simp: emit_chirps_def Let_def
      split: option.splits pyval.splits sum.splits if_splits pyseq.splits prod.splits)

lemma to_chirp_enc_sr:
  "to_chirp payload v = Inr (out, v') \<Longrightarrow> enc_sr v' = enc_sr v"
  by (auto simp: to_chirp_def Let_def split: sum.splits prod.splits)

lemma example_unit_size: "unit_size example_writer = 1"
  by (simp add: example_writer_def SimpleSRWriter_init_def Let_def)

lemma example_facts:
  "wf_writer example_writer" "unit_size example_writer = 1" "written example_writer = []"
  "sample_count example_writer = 0"
  "global_sr example_world = Some (PyRef 0)"
  "heap example_world 0 = Some example_writer" "heap example_world 1 = Some example_writer"
  "enc_sr example_usb = PyRef 1" "state example_usb = CHR ''j''" "interpolate example_usb = 1"
  "c2s example_usb CHR ''j'' = Some 2" "c2s example_usb CHR ''k'' = Some 1"
  "CHIRP_TO_SAMPLE ''fs'' = Some (c2s example_usb)"
  using example_unit_size
  by (simp_all add: example_world_def example_usb_def wf_writer_def written_def
      sample_count_def CHIRP_TO_SAMPLE_def)
    (simp_all add: example_writer_def init_fields)

lemma emit_call_frame:
  assumes "call \<in> {emit_chirps (StrSeq s) upd, emit_sync, emit_eop, emit_stall n,
                     emit_bytes payload}"
    and "call (u, wd) = Some (r, (u', wd'))"
  shows "global_sr wd' = global_sr wd"
    and "global_sr wd \<noteq> Some (PyRef b) \<Longrightarrow> heap wd' b = heap wd b"
    and "enc_sr u' = enc_sr u"
proof -
  have str: "\<And>t. \<forall>v out v'. run_seq (StrSeq t) v = Inr (out, v') \<longrightarrow> enc_sr v' = enc_sr v"
    by (simp add: run_seq_def)
  have gen: "\<forall>v out v'. run_seq (GenSeq (to_chirp payload)) v = Inr (out, v')
               \<longrightarrow> enc_sr v' = enc_sr v"
    by (auto simp: run_seq_def dest: to_chirp_enc_sr)
  from assms(1) consider
      (chirps) "call = emit_chirps (StrSeq s) upd"
    | (sync) "call = emit_chirps (StrSeq ''kjkjkjkk'') True"
    | (eop) "call = emit_chirps (StrSeq ''ssj'') True"
    | (stall) "call = emit_stall n"
    | (bytes) "call = emit_chirps (GenSeq (to_chirp payload)) False"
    by (auto simp: emit_sync_def emit_eop_def emit_bytes_def)
  then have "global_sr wd' = global_sr wd
      \<and> (global_sr wd \<noteq> Some (PyRef b) \<longrightarrow> heap wd' b = heap wd b)
      \<and> enc_sr u' = enc_sr u"
  proof cases
    case chirps
    then show ?thesis using assms(2) emit_chirps_frame [of "StrSeq s" upd u wd r u' wd' b] str
      by blast
  next
    case sync
    then show ?thesis
      using assms(2) emit_chirps_frame [of "StrSeq ''kjkjkjkk''" True u wd r u' wd' b] str
      by blast
  next
    case eop
    then show ?thesis
      using assms(2) emit_chirps_frame [of "StrSeq ''ssj''" True u wd r u' wd' b] str
      by blast
  next
    case stall
    show ?thesis
    proof (cases "n \<le> 0")
      case True
      then show ?thesis using assms(2) stall by (auto simp: emit_stall_def split: if_splits)
    next
      case False
      then have "emit_chirps (StrSeq (replicate (nat n) (state u))) True (u, wd)
                   = Some (r, (u', wd'))"
        using assms(2) stall by (simp add: emit_stall_def)
      then show ?thesis
        using emit_chirps_frame [of "StrSeq (replicate (nat n) (state u))" True u wd r u' wd' b]
          str by blast
    qed
  next
    case bytes
    then show ?thesis
      using assms(2) emit_chirps_frame [of "GenSeq (to_chirp payload)" False u wd r u' wd' b] gen
      by blast
  qed
  then show "global_sr wd' = global_sr wd"
    and "global_sr wd \<noteq> Some (PyRef b) \<Longrightarrow> heap wd' b = heap wd b"
    and "enc_sr u' = enc_sr u" by simp_all
qed

lemma emit_chirps_str_writes:
  assumes "global_sr wd = Some (PyRef a)" and "heap wd a = Some w"
    and "double (c2s u) (interpolate u) s = Inr samples"
    and "write_samples samples w = Some (Inr w')"
  shows "\<exists>r u'. emit_chirps (StrSeq s) upd (u, wd)
                   = Some (r, (u', wd\<lparr>heap := (heap wd)(a \<mapsto> w')\<rparr>)) \<and> enc_sr u' = enc_sr u"
  using assms by (simp add: emit_chirps_def run_seq_def Let_def)

lemma ff_chirps: "to_chirp_bytes [0xFF] 0 0 = (''jjjjjjkkjjk'', 1, 8)"
  by code_simp

section \<open>Lemmas about the loop over the packets\<close>

lemma chirp_samples_append:
  "chirp_samples table n (s @ t) = chirp_samples table n s @ chirp_samples table n t"
  by (simp add: chirp_samples_def)

lemma length_chirp_samples: "length (chirp_samples table n s) = length s * nat n"
  by (induction s) (simp_all add: chirp_samples_def)

lemma double_samples:
  "\<forall>c \<in> set s. table c \<noteq> None \<Longrightarrow> double table n s = Inr (chirp_samples table n s)"
proof (induction s)
  case Nil
  show ?case by (simp add: chirp_samples_def)
next
  case (Cons c s)
  then have ih: "double table n s = Inr (chirp_samples table n s)" by simp
  obtain v where "table c = Some v" using Cons.prems by auto
  then show ?case using ih by (cases "n \<le> 0") (simp_all add: chirp_samples_def)
qed

text \<open>
  What one call of the encoder does when \<^verbatim>\<open>sr\<close> is bound to a well-formed writer of
  unit size 1, at any address, and the table has the symbols.
\<close>

lemma emit_str_writes:
  assumes "global_sr wd = Some (PyRef a)" and "heap wd a = Some w"
    and "wf_writer w" and "unit_size w = 1"
    and "\<forall>c \<in> set s. c2s u c \<noteq> None" and "s \<noteq> []"
  shows "\<exists>w'. emit_chirps (StrSeq s) True (u, wd)
                 = Some (Inr (), (u\<lparr>state := last s\<rparr>, wd\<lparr>heap := (heap wd)(a \<mapsto> w')\<rparr>))
           \<and> wf_writer w' \<and> unit_size w' = 1 \<and> closed (zip_sr w') = closed (zip_sr w)
           \<and> sample_counter w' = sample_counter w + int (length s * nat (interpolate u))
           \<and> written w' = written w @ chirp_samples (c2s u) (interpolate u) s"
proof -
  let ?samples = "chirp_samples (c2s u) (interpolate u) s"
  have d: "double (c2s u) (interpolate u) s = Inr ?samples"
    using assms(5) by (rule double_samples)
  obtain w' where w': "write_samples ?samples w = Some (Inr w')" "wf_writer w'"
      "unit_size w' = 1" "closed (zip_sr w') = closed (zip_sr w)"
      "sample_counter w' = sample_counter w + int (length ?samples)"
      "written w' = written w @ ?samples"
    using write_samples_unit [OF assms(3,4), of ?samples] by blast
  have "emit_chirps (StrSeq s) True (u, wd)
          = Some (Inr (), (u\<lparr>state := last s\<rparr>, wd\<lparr>heap := (heap wd)(a \<mapsto> w')\<rparr>))"
    using assms(1,2) d w'(1) assms(6) by (rule emit_chirps_str)
  then show ?thesis using w'(2-6) by (auto simp: length_chirp_samples)
qed

lemma emit_stall_writes:
  assumes "global_sr wd = Some (PyRef a)" and "heap wd a = Some w"
    and "wf_writer w" and "unit_size w = 1"
    and "c2s u (state u) \<noteq> None" and "0 < n"
  shows "\<exists>w'. emit_stall n (u, wd)
                 = Some (Inr (), (u, wd\<lparr>heap := (heap wd)(a \<mapsto> w')\<rparr>))
           \<and> wf_writer w' \<and> unit_size w' = 1 \<and> closed (zip_sr w') = closed (zip_sr w)
           \<and> sample_counter w' = sample_counter w + int (nat n * nat (interpolate u))
           \<and> written w' = written w
               @ chirp_samples (c2s u) (interpolate u) (replicate (nat n) (state u))"
proof -
  let ?s = "replicate (nat n) (state u)"
  have ne: "?s \<noteq> []" using assms(6) by simp
  have l: "last ?s = state u" using ne by simp
  have "\<forall>c \<in> set ?s. c2s u c \<noteq> None" using assms(5) by simp
  from emit_str_writes [OF assms(1-4) this ne]
  obtain w' where w': "emit_chirps (StrSeq ?s) True (u, wd)
                 = Some (Inr (), (u\<lparr>state := last ?s\<rparr>, wd\<lparr>heap := (heap wd)(a \<mapsto> w')\<rparr>))"
      "wf_writer w'" "unit_size w' = 1" "closed (zip_sr w') = closed (zip_sr w)"
      "sample_counter w' = sample_counter w + int (length ?s * nat (interpolate u))"
      "written w' = written w @ chirp_samples (c2s u) (interpolate u) ?s"
    by blast
  have "emit_stall n (u, wd) = Some (Inr (), (u, wd\<lparr>heap := (heap wd)(a \<mapsto> w')\<rparr>))"
    using w'(1) assms(6) by (simp add: emit_stall_def l)
  then show ?thesis using w'(2-6) by auto
qed

lemma emit_str_ready:
  assumes "ready (u, wd)" and "s \<noteq> []"
    and "set s \<subseteq> {CHR ''j'', CHR ''k'', CHR ''s''}"
    and "last s = CHR ''j'' \<or> last s = CHR ''k''"
  shows "\<exists>u' wd'. emit_chirps (StrSeq s) True (u, wd) = Some (Inr (), (u', wd'))
           \<and> ready (u', wd') \<and> state u' = last s
           \<and> ticks (u', wd') = ticks (u, wd) + int (length s) * interpolate u
           \<and> held (u', wd') = held (u, wd) @ chirp_samples (c2s u) (interpolate u) s
           \<and> interpolate u' = interpolate u \<and> c2s u' = c2s u"
proof -
  from assms(1) obtain w where w: "global_sr wd = Some (PyRef 0)" "heap wd 0 = Some w"
      "wf_writer w" "unit_size w = 1" "\<not> closed (zip_sr w)"
    by (auto simp: ready_def split: option.splits)
  have "\<forall>c \<in> set s. c2s u c \<noteq> None"
    using assms(1,3) by (auto simp: ready_def)
  from emit_str_writes [OF w(1-4) this assms(2)]
  obtain w' where e: "emit_chirps (StrSeq s) True (u, wd)
          = Some (Inr (), (u\<lparr>state := last s\<rparr>, wd\<lparr>heap := (heap wd)(0 \<mapsto> w')\<rparr>))"
    and w': "wf_writer w'" "unit_size w' = 1" "closed (zip_sr w') = closed (zip_sr w)"
      "sample_counter w' = sample_counter w + int (length s * nat (interpolate u))"
      "written w' = written w @ chirp_samples (c2s u) (interpolate u) s"
    by blast
  have pos: "0 < interpolate u" using assms(1) by (simp add: ready_def)
  have "ready (u\<lparr>state := last s\<rparr>, wd\<lparr>heap := (heap wd)(0 \<mapsto> w')\<rparr>)"
    using assms(1,4) w(1,5) w'(1,2,3) by (simp add: ready_def)
  moreover have "ticks (u\<lparr>state := last s\<rparr>, wd\<lparr>heap := (heap wd)(0 \<mapsto> w')\<rparr>)
                   = ticks (u, wd) + int (length s) * interpolate u"
    using w(2) w'(4) pos by (simp add: ticks_def sample_count_def)
  moreover have "held (u\<lparr>state := last s\<rparr>, wd\<lparr>heap := (heap wd)(0 \<mapsto> w')\<rparr>)
                   = held (u, wd) @ chirp_samples (c2s u) (interpolate u) s"
    using w(2) w'(5) by (simp add: held_def)
  ultimately show ?thesis using e by simp
qed

lemma emit_stall_ready:
  assumes "ready (u, wd)" and "0 \<le> n"
  shows "\<exists>wd'. emit_stall n (u, wd) = Some (Inr (), (u, wd'))
           \<and> ready (u, wd')
           \<and> ticks (u, wd') = ticks (u, wd) + n * interpolate u
           \<and> held (u, wd') = held (u, wd)
               @ chirp_samples (c2s u) (interpolate u) (replicate (nat n) (state u))"
proof (cases "n = 0")
  case True
  then show ?thesis using assms(1) by (simp add: emit_stall_def chirp_samples_def)
next
  case False
  let ?s = "replicate (nat n) (state u)"
  have st: "state u = CHR ''j'' \<or> state u = CHR ''k''" using assms(1) by (simp add: ready_def)
  have ne: "?s \<noteq> []" using False assms(2) by simp
  have l: "last ?s = state u" using ne by simp
  have "set ?s \<subseteq> {CHR ''j'', CHR ''k'', CHR ''s''}" using st by auto
  from emit_str_ready [OF assms(1) ne this] st l
  obtain u' wd' where r: "emit_chirps (StrSeq ?s) True (u, wd) = Some (Inr (), (u', wd'))"
      "ready (u', wd')" "state u' = state u"
      "ticks (u', wd') = ticks (u, wd) + int (length ?s) * interpolate u"
      "held (u', wd') = held (u, wd) @ chirp_samples (c2s u) (interpolate u) ?s"
    by auto
  have "u' = u"
    using r(1) by (auto simp: emit_chirps_def run_seq_def Let_def l
        split: option.splits pyval.splits sum.splits if_splits)
  then show ?thesis using r False assms(2) by (simp add: emit_stall_def)
qed

lemma flip_level: "tmp = 0 \<or> tmp = 1 \<Longrightarrow> NOT tmp AND 1 = (0::int) \<or> NOT tmp AND 1 = (1::int)"
  by auto

lemma to_chirp_bits_jk:
  assumes "tmp = 0 \<or> tmp = 1" and "to_chirp_bits n byte tmp stuff = (out, tmp', stuff')"
  shows "(tmp' = 0 \<or> tmp' = 1) \<and> set out \<subseteq> {CHR ''j'', CHR ''k''}"
  using assms
proof (induction n arbitrary: byte tmp stuff out tmp' stuff')
  case 0
  then show ?case by simp
next
  case (Suc n)
  let ?tmp1 = "if byte AND 1 = 0 then NOT tmp AND 1 else tmp"
  let ?stuff1 = "if byte AND 1 = 0 then 0 else stuff + 1"
  let ?tmp2 = "if ?stuff1 \<ge> 6 then NOT ?tmp1 AND 1 else ?tmp1"
  have t1: "?tmp1 = 0 \<or> ?tmp1 = 1" using Suc.prems(1) flip_level by auto
  then have t2: "?tmp2 = 0 \<or> ?tmp2 = 1" using flip_level [of ?tmp1] by presburger
  obtain rest a b where rest: "to_chirp_bits n (drop_bit 1 byte) ?tmp2 ?stuff1 = (rest, a, b)"
    by (metis prod_cases3)
  from Suc.IH [OF t2 rest] have ih: "(a = 0 \<or> a = 1) \<and> set rest \<subseteq> {CHR ''j'', CHR ''k''}" .
  have jk: "\<And>x. x = 0 \<or> x = 1 \<Longrightarrow> jk_at x = CHR ''j'' \<or> jk_at x = CHR ''k''"
    by (auto simp: jk_at_def)
  have j1: "jk_at ?tmp1 = CHR ''j'' \<or> jk_at ?tmp1 = CHR ''k''" using jk [OF t1] .
  have j2: "jk_at (NOT ?tmp1 AND 1) = CHR ''j'' \<or> jk_at (NOT ?tmp1 AND 1) = CHR ''k''"
    using jk [OF flip_level [OF t1]] .
  have out: "out = (if ?stuff1 \<ge> 6 then [jk_at ?tmp1, jk_at (NOT ?tmp1 AND 1)] else [jk_at ?tmp1]) @ rest"
    and tmp': "tmp' = a"
    using Suc.prems(2) rest by (auto simp: Let_def split: if_splits)
  show ?case using ih j1 j2 out tmp' by (auto split: if_splits)
qed

lemma to_chirp_bytes_jk:
  assumes "tmp = 0 \<or> tmp = 1" and "to_chirp_bytes payload tmp stuff = (out, tmp', stuff')"
  shows "(tmp' = 0 \<or> tmp' = 1) \<and> set out \<subseteq> {CHR ''j'', CHR ''k''}"
  using assms
proof (induction payload arbitrary: tmp stuff out tmp' stuff')
  case Nil
  then show ?case by simp
next
  case (Cons b bs)
  obtain o1 t1 s1 where one: "to_chirp_bits 8 (uint b) tmp stuff = (o1, t1, s1)"
    by (metis prod_cases3)
  obtain o2 t2 s2 where two: "to_chirp_bytes bs t1 s1 = (o2, t2, s2)"
    by (metis prod_cases3)
  from to_chirp_bits_jk [OF Cons.prems(1) one]
  have h1: "t1 = 0 \<or> t1 = 1" "set o1 \<subseteq> {CHR ''j'', CHR ''k''}" by simp_all
  from Cons.IH [OF h1(1) two]
  have h2: "t2 = 0 \<or> t2 = 1" "set o2 \<subseteq> {CHR ''j'', CHR ''k''}" by simp_all
  have "out = o1 @ o2" "tmp' = t2" using Cons.prems(2) one two by simp_all
  then show ?case using h1 h2 by auto
qed

lemma to_chirp_ready:
  assumes "state u = CHR ''j'' \<or> state u = CHR ''k''"
  shows "\<exists>out u'. to_chirp payload u = Inr (out, u') \<and> set out \<subseteq> {CHR ''j'', CHR ''k''}
           \<and> (state u' = CHR ''j'' \<or> state u' = CHR ''k'')
           \<and> enc_sr u' = enc_sr u \<and> c2s u' = c2s u \<and> interpolate u' = interpolate u"
proof -
  obtain tmp where tmp: "jk_index (state u) = Inr tmp" "tmp = 0 \<or> tmp = 1"
    using assms by (auto simp: jk_index_def)
  obtain out t s where r: "to_chirp_bytes payload tmp 0 = (out, t, s)" by (metis prod_cases3)
  from to_chirp_bytes_jk [OF tmp(2) r]
  have h: "t = 0 \<or> t = 1" "set out \<subseteq> {CHR ''j'', CHR ''k''}" by simp_all
  have "to_chirp payload u = Inr (out, u\<lparr>state := jk_at t\<rparr>)"
    using tmp(1) r by (simp add: to_chirp_def)
  moreover have "jk_at t = CHR ''j'' \<or> jk_at t = CHR ''k''" using h(1) by (auto simp: jk_at_def)
  ultimately show ?thesis using h(2) by simp
qed

lemma emit_bytes_writes:
  assumes "global_sr wd = Some (PyRef a)" and "heap wd a = Some w"
    and "wf_writer w" and "unit_size w = 1"
    and "state u = CHR ''j'' \<or> state u = CHR ''k''"
    and "c2s u CHR ''j'' \<noteq> None" and "c2s u CHR ''k'' \<noteq> None"
  shows "\<exists>(out :: string) u' w'. to_chirp payload u = Inr (out, u')
           \<and> emit_bytes payload (u, wd)
               = Some (Inr (), (u', wd\<lparr>heap := (heap wd)(a \<mapsto> w')\<rparr>))
           \<and> wf_writer w' \<and> unit_size w' = 1 \<and> closed (zip_sr w') = closed (zip_sr w)
           \<and> sample_counter w' = sample_counter w + int (length out * nat (interpolate u))
           \<and> written w' = written w @ chirp_samples (c2s u) (interpolate u) out
           \<and> (state u' = CHR ''j'' \<or> state u' = CHR ''k'')
           \<and> enc_sr u' = enc_sr u \<and> c2s u' = c2s u \<and> interpolate u' = interpolate u"
proof -
  from to_chirp_ready [OF assms(5), of payload]
  obtain out u' where g: "to_chirp payload u = Inr (out, u')"
      "set out \<subseteq> {CHR ''j'', CHR ''k''}" "state u' = CHR ''j'' \<or> state u' = CHR ''k''"
      "enc_sr u' = enc_sr u" "c2s u' = c2s u" "interpolate u' = interpolate u"
    by blast
  let ?samples = "chirp_samples (c2s u) (interpolate u) out"
  have "\<forall>c \<in> set out. c2s u c \<noteq> None" using assms(6,7) g(2) by auto
  then have d: "double (c2s u) (interpolate u) out = Inr ?samples" by (rule double_samples)
  obtain w' where w': "write_samples ?samples w = Some (Inr w')" "wf_writer w'"
      "unit_size w' = 1" "closed (zip_sr w') = closed (zip_sr w)"
      "sample_counter w' = sample_counter w + int (length ?samples)"
      "written w' = written w @ ?samples"
    using write_samples_unit [OF assms(3,4), of ?samples] by blast
  have e: "emit_chirps (GenSeq (to_chirp payload)) False (u, wd)
          = Some (Inr (), (u', wd\<lparr>heap := (heap wd)(a \<mapsto> w')\<rparr>))"
    using assms(1,2) g(1) d w'(1) by (rule emit_chirps_gen)
  have c: "sample_counter w' = sample_counter w + int (length out * nat (interpolate u))"
    using w'(5) by (simp add: length_chirp_samples)
  show ?thesis unfolding emit_bytes_def
  proof (intro exI conjI)
    show "to_chirp payload u = Inr (out, u')" by (rule g(1))
    show "emit_chirps (GenSeq (to_chirp payload)) False (u, wd)
            = Some (Inr (), (u', wd\<lparr>heap := (heap wd)(a \<mapsto> w')\<rparr>))" by (rule e)
    show "wf_writer w'" by (rule w'(2))
    show "unit_size w' = 1" by (rule w'(3))
    show "closed (zip_sr w') = closed (zip_sr w)" by (rule w'(4))
    show "sample_counter w' = sample_counter w + int (length out * nat (interpolate u))"
      by (rule c)
    show "written w' = written w @ ?samples" by (rule w'(6))
    show "state u' = CHR ''j'' \<or> state u' = CHR ''k''" by (rule g(3))
    show "enc_sr u' = enc_sr u" by (rule g(4))
    show "c2s u' = c2s u" by (rule g(5))
    show "interpolate u' = interpolate u" by (rule g(6))
  qed
qed

lemma emit_bytes_ready:
  assumes "ready (u, wd)"
  shows "\<exists>u' wd' (out :: string). emit_bytes payload (u, wd) = Some (Inr (), (u', wd'))
           \<and> to_chirp payload u = Inr (out, u')
           \<and> ready (u', wd')
           \<and> ticks (u', wd') = ticks (u, wd) + int (length out) * interpolate u
           \<and> held (u', wd') = held (u, wd) @ chirp_samples (c2s u) (interpolate u) out
           \<and> interpolate u' = interpolate u \<and> c2s u' = c2s u"
proof -
  from assms obtain w where w: "global_sr wd = Some (PyRef 0)" "heap wd 0 = Some w"
      "wf_writer w" "unit_size w = 1" "\<not> closed (zip_sr w)"
    by (auto simp: ready_def split: option.splits)
  have st: "state u = CHR ''j'' \<or> state u = CHR ''k''"
    and tb: "c2s u CHR ''j'' \<noteq> None" "c2s u CHR ''k'' \<noteq> None"
    using assms by (simp_all add: ready_def)
  from emit_bytes_writes [OF w(1-4) st tb, of payload]
  obtain out :: string and u' w' where g: "to_chirp payload u = Inr (out, u')"
    and e: "emit_bytes payload (u, wd)
              = Some (Inr (), (u', wd\<lparr>heap := (heap wd)(0 \<mapsto> w')\<rparr>))"
    and w': "wf_writer w'" "unit_size w' = 1" "closed (zip_sr w') = closed (zip_sr w)"
      "sample_counter w' = sample_counter w + int (length out * nat (interpolate u))"
      "written w' = written w @ chirp_samples (c2s u) (interpolate u) out"
    and u': "state u' = CHR ''j'' \<or> state u' = CHR ''k''" "c2s u' = c2s u"
      "interpolate u' = interpolate u"
    by blast
  have pos: "0 < interpolate u" using assms by (simp add: ready_def)
  have r: "ready (u', wd\<lparr>heap := (heap wd)(0 \<mapsto> w')\<rparr>)"
    using assms u' w(1,5) w'(1,2,3) by (simp add: ready_def)
  have t: "ticks (u', wd\<lparr>heap := (heap wd)(0 \<mapsto> w')\<rparr>)
                   = ticks (u, wd) + int (length out) * interpolate u"
    using w(2) w'(4) pos by (simp add: ticks_def sample_count_def)
  have h: "held (u', wd\<lparr>heap := (heap wd)(0 \<mapsto> w')\<rparr>)
             = held (u, wd) @ chirp_samples (c2s u) (interpolate u) out"
    using w(2) w'(5) by (simp add: held_def)
  show ?thesis
  proof (intro exI conjI)
    show "emit_bytes payload (u, wd)
            = Some (Inr (), (u', wd\<lparr>heap := (heap wd)(0 \<mapsto> w')\<rparr>))" by (rule e)
    show "to_chirp payload u = Inr (out, u')" by (rule g)
    show "ready (u', wd\<lparr>heap := (heap wd)(0 \<mapsto> w')\<rparr>)" by (rule r)
    show "ticks (u', wd\<lparr>heap := (heap wd)(0 \<mapsto> w')\<rparr>)
            = ticks (u, wd) + int (length out) * interpolate u" by (rule t)
    show "held (u', wd\<lparr>heap := (heap wd)(0 \<mapsto> w')\<rparr>)
            = held (u, wd) @ chirp_samples (c2s u) (interpolate u) out" by (rule h)
    show "interpolate u' = interpolate u" by (rule u'(3))
    show "c2s u' = c2s u" by (rule u'(2))
  qed
qed

lemma sample_count_ticks_ready:
  assumes "ready m" and "n \<noteq> 0"
  shows "sample_count_ticks n m = Some (Inr (ticks m div n), m)"
  using assms
  by (auto simp: ready_def sample_count_ticks_def ticks_def split: option.splits)

lemma div_add_multiple:
  "n \<noteq> 0 \<Longrightarrow> (x + k * n) div n = x div n + (k :: int)"
  by simp

lemma timing_step_overrun:
  assumes "py_round ((time pkt - last_pkt_at t) * of_int speed)
             < ends_at_ticks t - begins_at_ticks t"
  shows "timing_step speed interp pkt t m = Some (Inl (RuntimeError overrun_message), m)"
  using assms by (simp add: timing_step_def Let_def)

lemma timing_step_ok:
  assumes "ready m" and "interp = interpolate (fst m)" and "state (fst m) = CHR ''j''"
    and "\<not> py_round ((time pkt - last_pkt_at t) * of_int speed)
             < ends_at_ticks t - begins_at_ticks t"
  shows "\<exists>t' m'. timing_step speed interp pkt t m = Some (Inr t', m')
           \<and> ready m' \<and> interpolate (fst m') = interpolate (fst m)
           \<and> state (fst m') = CHR ''j'' \<and> c2s (fst m') = c2s (fst m)
           \<and> held m' = held m @ chirp_samples (c2s (fst m)) (interpolate (fst m))
               (replicate (nat (py_round ((time pkt - last_pkt_at t) * of_int speed)
                                  - (ends_at_ticks t - begins_at_ticks t))) CHR ''j''
                @ packet_chirps pkt)
           \<and> ends_at_ticks t' - begins_at_ticks t' = duration pkt
           \<and> last_pkt_at t' = time pkt"
proof -
  obtain u wd where m: "m = (u, wd)" by (cases m)
  let ?n = "interpolate u"
  let ?stall = "py_round ((time pkt - last_pkt_at t) * of_int speed)
                  - (ends_at_ticks t - begins_at_ticks t)"
  have n: "0 < ?n" "interp = ?n" using assms(1,2) m by (simp_all add: ready_def)
  have j: "state u = CHR ''j''" using assms(3) m by simp
  have r0: "ready (u, wd)" using assms(1) m by simp
  have "0 \<le> ?stall" using assms(4) by simp
  from emit_stall_ready [OF r0 this]
  obtain wd1 where s1: "emit_stall ?stall (u, wd) = Some (Inr (), (u, wd1))"
      "ready (u, wd1)"
      "held (u, wd1) = held (u, wd) @ chirp_samples (c2s u) ?n (replicate (nat ?stall) CHR ''j'')"
    using j by auto
  have c1: "sample_count_ticks ?n (u, wd1) = Some (Inr (ticks (u, wd1) div ?n), (u, wd1))"
    using s1(2) n(1) by (intro sample_count_ticks_ready) simp_all
  have "emit_sync (u, wd1) = emit_chirps (StrSeq ''kjkjkjkk'') True (u, wd1)"
    by (simp add: emit_sync_def)
  moreover from emit_str_ready [OF s1(2), of "''kjkjkjkk''"]
  obtain u2 wd2 where "emit_chirps (StrSeq ''kjkjkjkk'') True (u, wd1) = Some (Inr (), (u2, wd2))"
      and s2: "ready (u2, wd2)" "ticks (u2, wd2) = ticks (u, wd1) + 8 * ?n"
      "interpolate u2 = ?n" "state u2 = CHR ''k''" "c2s u2 = c2s u"
      "held (u2, wd2) = held (u, wd1) @ chirp_samples (c2s u) ?n ''kjkjkjkk''"
    by auto
  ultimately have e2: "emit_sync (u, wd1) = Some (Inr (), (u2, wd2))" by simp
  from emit_bytes_ready [OF s2(1), of "load pkt"]
  obtain u3 wd3 and out :: string
    where e3: "emit_bytes (load pkt) (u2, wd2) = Some (Inr (), (u3, wd3))"
      and g3: "to_chirp (load pkt) u2 = Inr (out, u3)"
      and s3: "ready (u3, wd3)" "ticks (u3, wd3) = ticks (u2, wd2) + int (length out) * ?n"
      "interpolate u3 = ?n" "c2s u3 = c2s u"
      "held (u3, wd3) = held (u2, wd2) @ chirp_samples (c2s u) ?n out"
    using s2(3,5) by auto
  have "emit_eop (u3, wd3) = emit_chirps (StrSeq ''ssj'') True (u3, wd3)"
    by (simp add: emit_eop_def)
  moreover from emit_str_ready [OF s3(1), of "''ssj''"]
  obtain u4 wd4 where "emit_chirps (StrSeq ''ssj'') True (u3, wd3) = Some (Inr (), (u4, wd4))"
      and s4: "ready (u4, wd4)" "ticks (u4, wd4) = ticks (u3, wd3) + 3 * ?n"
      "interpolate u4 = ?n" "state u4 = CHR ''j''" "c2s u4 = c2s u"
      "held (u4, wd4) = held (u3, wd3) @ chirp_samples (c2s u) ?n ''ssj''"
    using s3(3,4) by auto
  ultimately have e4: "emit_eop (u3, wd3) = Some (Inr (), (u4, wd4))" by simp
  have c4: "sample_count_ticks ?n (u4, wd4) = Some (Inr (ticks (u4, wd4) div ?n), (u4, wd4))"
    using s4(1) n(1) by (intro sample_count_ticks_ready) simp_all
  let ?t' = "\<lparr>begins_at_ticks = ticks (u, wd1) div ?n, ends_at_ticks = ticks (u4, wd4) div ?n,
              last_pkt_at = time pkt\<rparr>"
  have step: "timing_step speed interp pkt t m = Some (Inr ?t', (u4, wd4))"
    using assms(4) by (simp add: timing_step_def Let_def then_do_def m n(2) s1(1) c1 e2 e3 e4 c4)
  have "ticks (u4, wd4) = ticks (u, wd1) + (11 + int (length out)) * ?n"
    using s2(2) s3(2) s4(2) by (simp add: algebra_simps)
  then have "ticks (u4, wd4) div ?n = ticks (u, wd1) div ?n + (11 + int (length out))"
    using n(1) div_add_multiple [of ?n "ticks (u, wd1)" "11 + int (length out)"] by simp
  moreover have out: "out = fst (to_chirp_bytes (load pkt) 1 0)"
    using g3 s2(4) by (auto simp: to_chirp_def jk_index_def Let_def split: prod.splits)
  ultimately have dur: "ends_at_ticks ?t' - begins_at_ticks ?t' = duration pkt"
    by (simp add: duration_def)
  have hd: "held (u4, wd4) = held (u, wd) @ chirp_samples (c2s u) ?n
              (replicate (nat ?stall) CHR ''j'' @ packet_chirps pkt)"
    using s1(3) s2(6) s3(5) s4(6) out
    by (simp only: packet_chirps_def chirp_samples_append append_assoc)
  show ?thesis
  proof (intro exI conjI)
    show "timing_step speed interp pkt t m = Some (Inr ?t', (u4, wd4))" by (rule step)
    show "ready (u4, wd4)" by (rule s4(1))
    show "interpolate (fst (u4, wd4)) = interpolate (fst m)" using s4(3) m by simp
    show "state (fst (u4, wd4)) = CHR ''j''" using s4(4) by simp
    show "c2s (fst (u4, wd4)) = c2s (fst m)" using s4(5) m by simp
    show "held (u4, wd4) = held m @ chirp_samples (c2s (fst m)) (interpolate (fst m))
               (replicate (nat ?stall) CHR ''j'' @ packet_chirps pkt)"
      using hd m by simp
    show "ends_at_ticks ?t' - begins_at_ticks ?t' = duration pkt" by (rule dur)
    show "last_pkt_at ?t' = time pkt" by simp
  qed
qed

lemma main_usb_eq:
  "main_usb a = Inr \<lparr>state = CHR ''j'', enc_sr = PyStr (arg_signaling a),
      c2s = [CHR ''j'' \<mapsto> 2, CHR ''k'' \<mapsto> 1, CHR ''s'' \<mapsto> 0, CHR ''S'' \<mapsto> 3],
      interpolate = arg_interpolate a\<rparr>"
  by (simp add: main_usb_def USBSignaling_init_def CHIRP_TO_SAMPLE_def)

lemma main_writer_facts:
  "wf_writer (main_writer a speed)" "unit_size (main_writer a speed) = 1"
proof -
  show u: "unit_size (main_writer a speed) = 1"
    by (simp add: main_writer_def SimpleSRWriter_init_def Let_def)
  show "wf_writer (main_writer a speed)"
    using u by (simp add: wf_writer_def) (simp add: main_writer_def init_fields)
qed

lemma main_machine_ready:
  assumes "main_usb a = Inr usb" and "0 < arg_interpolate a"
  shows "ready (usb, main_world a speed)" and "interpolate usb = arg_interpolate a"
    and "state usb = CHR ''j''" and "held (usb, main_world a speed) = []"
    and "c2s usb = [CHR ''j'' \<mapsto> 2, CHR ''k'' \<mapsto> 1, CHR ''s'' \<mapsto> 0, CHR ''S'' \<mapsto> 3]"
proof -
  have u: "usb = \<lparr>state = CHR ''j'', enc_sr = PyStr (arg_signaling a),
      c2s = [CHR ''j'' \<mapsto> 2, CHR ''k'' \<mapsto> 1, CHR ''s'' \<mapsto> 0, CHR ''S'' \<mapsto> 3],
      interpolate = arg_interpolate a\<rparr>"
    using assms(1) main_usb_eq [of a] by simp
  have o: "\<not> closed (zip_sr (main_writer a speed))"
    by (simp add: main_writer_def init_fields)
  show "ready (usb, main_world a speed)"
    using u o assms(2) main_writer_facts [of a speed] by (simp add: ready_def main_world_def)
  show "interpolate usb = arg_interpolate a" using u by simp
  show "state usb = CHR ''j''" using u by simp
  show "held (usb, main_world a speed) = []"
    by (simp add: held_def main_world_def written_def) (simp add: main_writer_def init_fields)
  show "c2s usb = [CHR ''j'' \<mapsto> 2, CHR ''k'' \<mapsto> 1, CHR ''s'' \<mapsto> 0, CHR ''S'' \<mapsto> 3]"
    using u by simp
qed

lemma timing_loop_overruns:
  assumes "ready m" and "interp = interpolate (fst m)" and "state (fst m) = CHR ''j''"
    and "overruns speed (last_pkt_at t) (ends_at_ticks t - begins_at_ticks t) pcap"
  shows "\<exists>m'. timing_loop speed interp pcap t m
                 = Some (Inl (RuntimeError overrun_message), m')
           \<and> ready m'
           \<and> held m' = held m @ chirp_samples (c2s (fst m)) (interpolate (fst m))
               (emitted speed (last_pkt_at t) (ends_at_ticks t - begins_at_ticks t) pcap)"
  using assms
proof (induction pcap arbitrary: t m)
  case Nil
  then show ?case by simp
next
  case (Cons pkt pcap)
  show ?case
  proof (cases "py_round ((time pkt - last_pkt_at t) * of_int speed)
                  < ends_at_ticks t - begins_at_ticks t")
    case True
    then show ?thesis
      using timing_step_overrun [OF True, of interp m] Cons.prems(1)
      by (simp add: chirp_samples_def)
  next
    case False
    from timing_step_ok [OF Cons.prems(1,2,3) False]
    obtain t' m' where st: "timing_step speed interp pkt t m = Some (Inr t', m')"
        "ready m'" "interpolate (fst m') = interpolate (fst m)"
        "state (fst m') = CHR ''j''" "c2s (fst m') = c2s (fst m)"
        "held m' = held m @ chirp_samples (c2s (fst m)) (interpolate (fst m))
               (replicate (nat (py_round ((time pkt - last_pkt_at t) * of_int speed)
                                  - (ends_at_ticks t - begins_at_ticks t))) CHR ''j''
                @ packet_chirps pkt)"
        "ends_at_ticks t' - begins_at_ticks t' = duration pkt" "last_pkt_at t' = time pkt"
      by blast
    have "overruns speed (last_pkt_at t') (ends_at_ticks t' - begins_at_ticks t') pcap"
      using Cons.prems(4) False st(7,8) by simp
    moreover have "interp = interpolate (fst m')" using Cons.prems(2) st(3) by simp
    ultimately obtain m'' where l:
      "timing_loop speed interp pcap t' m' = Some (Inl (RuntimeError overrun_message), m'')"
      "ready m''"
      "held m'' = held m' @ chirp_samples (c2s (fst m')) (interpolate (fst m'))
               (emitted speed (last_pkt_at t') (ends_at_ticks t' - begins_at_ticks t') pcap)"
      using Cons.IH [OF st(2) _ st(4)] by blast
    have "timing_loop speed interp (pkt # pcap) t m
            = Some (Inl (RuntimeError overrun_message), m'')"
      using st(1) l(1) by simp
    moreover have "held m'' = held m @ chirp_samples (c2s (fst m)) (interpolate (fst m))
               (emitted speed (last_pkt_at t) (ends_at_ticks t - begins_at_ticks t)
                  (pkt # pcap))"
      using l(3) st(3,5,6,7,8) False by (simp add: chirp_samples_append)
    ultimately show ?thesis using l(2) by blast
  qed
qed

lemma run_packets_overruns:
  assumes "main_usb a = Inr usb" and "0 < arg_interpolate a" and "0 \<le> arg_start_padding a"
    and "overruns speed first_at 0 pcap"
  shows "\<exists>m'. run_packets a speed pcap first_at (usb, main_world a speed)
                 = Some (Inl (RuntimeError overrun_message), m')
           \<and> ready m'
           \<and> held m' = chirp_samples (c2s usb) (arg_interpolate a)
               (replicate (nat (arg_start_padding a)) CHR ''j'' @ emitted speed first_at 0 pcap)"
proof -
  let ?n = "arg_interpolate a"
  have r0: "ready (usb, main_world a speed)" and n: "interpolate usb = ?n"
    and j: "state usb = CHR ''j''" and h0: "held (usb, main_world a speed) = []"
    using main_machine_ready [OF assms(1,2)] by simp_all
  from emit_stall_ready [OF r0 assms(3)]
  obtain wd1 where s1: "emit_stall (arg_start_padding a) (usb, main_world a speed)
                          = Some (Inr (), (usb, wd1))" "ready (usb, wd1)"
      "held (usb, wd1) = chirp_samples (c2s usb) ?n
                           (replicate (nat (arg_start_padding a)) CHR ''j'')"
    using n j h0 by auto
  have c1: "sample_count_ticks ?n (usb, wd1)
              = Some (Inr (ticks (usb, wd1) div ?n), (usb, wd1))"
    using s1(2) assms(2) by (intro sample_count_ticks_ready) simp_all
  let ?t0 = "\<lparr>begins_at_ticks = ticks (usb, wd1) div ?n,
              ends_at_ticks = ticks (usb, wd1) div ?n, last_pkt_at = first_at\<rparr>"
  have "overruns speed (last_pkt_at ?t0) (ends_at_ticks ?t0 - begins_at_ticks ?t0) pcap"
    using assms(4) by simp
  from timing_loop_overruns [OF s1(2) _ _ this, of ?n]
  obtain m' where l: "timing_loop speed ?n pcap ?t0 (usb, wd1)
                     = Some (Inl (RuntimeError overrun_message), m')"
      "ready m'"
      "held m' = held (usb, wd1) @ chirp_samples (c2s usb) ?n (emitted speed first_at 0 pcap)"
    using n j by auto
  have "run_packets a speed pcap first_at (usb, main_world a speed)
               = Some (Inl (RuntimeError overrun_message), m')"
    using l(1) by (simp add: run_packets_def then_do_def s1(1) c1)
  moreover have "held m' = chirp_samples (c2s usb) ?n
               (replicate (nat (arg_start_padding a)) CHR ''j'' @ emitted speed first_at 0 pcap)"
    using l(3) s1(3) by (simp add: chirp_samples_append)
  ultimately show ?thesis using l(2) by blast
qed

text \<open>
  The body of the \<^verbatim>\<open>with\<close> statement on a capture that overruns: the exception, and
  the writer it leaves at address 0.
\<close>

lemma body_overruns:
  assumes "main_usb a = Inr usb" and "0 < arg_interpolate a" and "0 \<le> arg_start_padding a"
    and "overruns speed first_at 0 pcap"
  shows "\<exists>u wd w. with_body a speed pcap first_at (usb, main_world a speed)
                 = Some (Inl (RuntimeError overrun_message), (u, wd))
           \<and> heap wd 0 = Some w \<and> \<not> closed (zip_sr w)
           \<and> written w = chirp_samples
                 [CHR ''j'' \<mapsto> 2, CHR ''k'' \<mapsto> 1, CHR ''s'' \<mapsto> 0, CHR ''S'' \<mapsto> 3]
                 (arg_interpolate a)
                 (replicate (nat (arg_start_padding a)) CHR ''j'' @ emitted speed first_at 0 pcap)"
proof -
  from run_packets_overruns [OF assms]
  obtain u wd where run: "run_packets a speed pcap first_at (usb, main_world a speed)
                            = Some (Inl (RuntimeError overrun_message), (u, wd))"
      "ready (u, wd)"
      "held (u, wd) = chirp_samples (c2s usb) (arg_interpolate a)
               (replicate (nat (arg_start_padding a)) CHR ''j'' @ emitted speed first_at 0 pcap)"
    by (metis prod.exhaust)
  from run(2) obtain w where w: "heap wd 0 = Some w" "\<not> closed (zip_sr w)"
    by (auto simp: ready_def split: option.splits)
  have "with_body a speed pcap first_at (usb, main_world a speed)
          = Some (Inl (RuntimeError overrun_message), (u, wd))"
    using run(1) by (simp add: with_body_def then_do_def)
  moreover have "written w = chirp_samples
                 [CHR ''j'' \<mapsto> 2, CHR ''k'' \<mapsto> 1, CHR ''s'' \<mapsto> 0, CHR ''S'' \<mapsto> 3]
                 (arg_interpolate a)
                 (replicate (nat (arg_start_padding a)) CHR ''j'' @ emitted speed first_at 0 pcap)"
    using run(3) w(1) main_machine_ready(5) [OF assms(1,2)] by (simp add: held_def)
  ultimately show ?thesis using w by blast
qed

text \<open>The script ends as the body of the \<^verbatim>\<open>with\<close> statement does, with the writer closed.\<close>

lemma main_of_body:
  assumes "USB_SPEED (arg_signaling a) = Some speed" and "pcap = first # rest"
    and "main_usb a = Inr usb"
    and "with_body a speed pcap (time first) (usb, main_world a speed) = Some (r, (u, wd))"
    and "heap wd 0 = Some w"
  shows "main a pcap = Some (r, wd\<lparr>heap := (heap wd)(0 \<mapsto> close w)\<rparr>)"
  using assms by (simp add: main_def closing_exit_def)

lemma main_overruns:
  assumes "USB_SPEED (arg_signaling a) = Some speed"
    and "0 < arg_interpolate a" and "0 \<le> arg_start_padding a"
    and "overruns speed (time (hd pcap)) 0 pcap"
  shows "map_option fst (main a pcap) = Some (Inl (RuntimeError overrun_message))"
proof -
  obtain first rest where pcap: "pcap = first # rest"
    using assms(4) by (cases pcap) simp_all
  obtain usb where usb: "main_usb a = Inr usb" using main_usb_eq [of a] by blast
  from body_overruns [OF usb assms(2,3), of speed "time first" pcap]
  obtain u wd w where "with_body a speed pcap (time first) (usb, main_world a speed)
                         = Some (Inl (RuntimeError overrun_message), (u, wd))"
      "heap wd 0 = Some w"
    using assms(4) pcap by auto
  from main_of_body [OF assms(1) pcap usb this] show ?thesis by simp
qed

lemma example_overruns:
  "overruns 12000000 (time (hd capture_one)) 0 capture_one"
  "overruns 12000000 (time (hd capture_two)) 0 capture_two"
  by code_simp+

section \<open>Properties of the writer\<close>

text \<open>
  C8. For every channel list of length C the writer is built with unit size
  \<open>ceil(C / 8)\<close>, the ceiling of the exact quotient; for the two channels of the
  script the unit size is 1.
\<close>

theorem unit_size_ceiling:
  "unit_size (SimpleSRWriter_init filename chans rate overwrite limit)
     = \<lceil>real (length chans) / 8\<rceil>
   \<and> unit_size (SimpleSRWriter_init filename [''D-'', ''D+''] rate overwrite limit) = 1"
  apply (simp add: SimpleSRWriter_init_def Let_def)
  apply (simp add: ceiling_def)
  apply linarith
  done

text \<open>
  C7. A writer built with a positive slice limit is given any sequence of aligned
  \<^verbatim>\<open>write_samples\<close> calls and then closed. Every call returns; the slice entries of
  the archive hold the bytes written, in order; no entry is longer than the slice limit,
  and every entry but the last is filled to the limit exactly (the buffer is flushed only
  when full, the remainder goes to a fresh one); when the bytes written exceed the limit
  there is more than one entry.
\<close>

theorem slices_within_limit:
  assumes "0 < limit" and "chans \<noteq> []"
    and "\<forall>s \<in> set writes.
           int (length s) mod unit_size (SimpleSRWriter_init filename chans rate overwrite limit) = 0"
  shows "\<exists>w. write_all writes (SimpleSRWriter_init filename chans rate overwrite limit) = Some (Inr w)
           \<and> concat (slices (close w)) = concat writes
           \<and> (\<forall>s \<in> set (slices (close w)). int (length s) \<le> limit)
           \<and> (\<forall>s \<in> set (butlast (slices (close w))). int (length s) = limit)
           \<and> (limit < int (length (concat writes)) \<longrightarrow> 1 < length (slices (close w)))"
proof -
  let ?w0 = "SimpleSRWriter_init filename chans rate overwrite limit"
  have wf: "wf_writer ?w0"
    using assms(1) init_unit_size_pos [OF assms(2), of filename rate overwrite limit]
    by (simp add: wf_writer_def init_fields)
  from write_all_returns [OF wf assms(3)]
  obtain w new where w: "write_all writes ?w0 = Some (Inr w)" "wf_writer w"
      "slice_limit w = limit" "slices w = new"
      "\<forall>s \<in> set new. int (length s) = limit"
      "concat new @ slice_buffer w = concat writes"
      "new = [] \<longleftrightarrow> int (length (concat writes)) \<le> limit"
    by (auto simp: init_fields)
  have sl: "slices (close w) = new @ [slice_buffer w]" using w(4) by (simp add: close_fields)
  have buf: "int (length (slice_buffer w)) \<le> limit" using w(2,3) by (simp add: wf_writer_def)
  have "concat (slices (close w)) = concat writes" using sl w(6) by simp
  moreover have "\<forall>s \<in> set (slices (close w)). int (length s) \<le> limit"
    using sl w(5) buf by auto
  moreover have "\<forall>s \<in> set (butlast (slices (close w))). int (length s) = limit"
    using sl w(5) by simp
  moreover have "limit < int (length (concat writes)) \<longrightarrow> 1 < length (slices (close w))"
    using sl w(7) by (cases new) auto
  ultimately show ?thesis using w(1) by blast
qed

theorem slices_within_limit_witness:
  "\<exists>w. write_all [[1, 2, 3], [4, 5]] (SimpleSRWriter_init ''out.sr'' [''D-'', ''D+''] 48000000 True 2)
          = Some (Inr w)
     \<and> concat (slices (close w)) = [1, 2, 3, 4, 5]
     \<and> (\<forall>s \<in> set (slices (close w)). int (length s) \<le> 2)
     \<and> (\<forall>s \<in> set (butlast (slices (close w))). int (length s) = 2)
     \<and> 1 < length (slices (close w))"
proof -
  have h1: "(0::int) < 2" by simp
  have h2: "[''D-'', ''D+''] \<noteq> []" by simp
  have h3: "\<forall>s \<in> set [[1, 2, 3], [4, 5 :: byte]].
      int (length s) mod unit_size (SimpleSRWriter_init ''out.sr'' [''D-'', ''D+''] 48000000 True 2) = 0"
    by (simp add: SimpleSRWriter_init_def Let_def)
  show ?thesis
    using slices_within_limit [OF h1 h2 h3] by simp
qed

text \<open>
  C3. The claim is that the sample counter is the number of bytes written divided by the
  unit size, \<^verbatim>\<open>fill_sample\<close> advancing it by \<open>len(pattern) * count / unit_size\<close>.
  \<^verbatim>\<open>fill_sample\<close> adds that amount itself after \<^verbatim>\<open>write_samples\<close> has added it
  already. On a new writer for the two channels (unit size 1), filling the one-byte
  pattern three times writes 3 bytes and leaves the counter at 6.
\<close>

theorem fill_sample_counts_twice:
  "\<exists>w. fill_sample [1] 3 (SimpleSRWriter_init ''out.sr'' [''D-'', ''D+''] 48000000 True 16777216)
          = Some (Inr w)
       \<and> written w = [1, 1, 1] \<and> unit_size w = 1 \<and> sample_count w = 6"
proof -
  let ?w0 = "SimpleSRWriter_init ''out.sr'' [''D-'', ''D+''] 48000000 True 16777216"
  have u: "unit_size ?w0 = 1" by (simp add: SimpleSRWriter_init_def Let_def)
  have wf: "wf_writer ?w0" using u by (simp add: wf_writer_def init_fields)
  have al: "(int (length [1 :: byte]) * 3) mod unit_size ?w0 = 0" using u by simp
  have w0: "written ?w0 = []" by (simp add: written_def init_fields)
  have rep: "py_repeat [1 :: byte] 3 = [1, 1, 1]"
    by (simp add: py_repeat_def eval_nat_numeral)
  from fill_sample_twice [OF wf al]
  obtain w where w: "fill_sample [1] 3 ?w0 = Some (Inr w)" "unit_size w = unit_size ?w0"
      "written w = written ?w0 @ py_repeat [1] 3"
      "sample_counter w = sample_counter ?w0 + 2 * (int (length [1 :: byte]) * 3 div unit_size ?w0)"
    by auto
  show ?thesis using w w0 rep u by (simp add: init_fields sample_count_def)
qed

section \<open>Properties of the encoder\<close>

text \<open>
  C1. The claim is that one stuffed symbol follows every sixth consecutive 1-bit, the
  counter being reset to 0 after it. The script never resets the counter after a stuffed
  symbol. For the payload \<open>0xFF\<close> from line state J (index 0) the eight data bits
  give eleven symbols: a stuffed symbol follows the sixth, the seventh and the eighth
  1-bit, and the counter ends at 8. \<^verbatim>\<open>emit_bytes\<close> on the full-speed encoder with
  one sample per symbol writes their eleven samples.
\<close>

theorem stuffing_counter_not_reset:
  "jk_index CHR ''j'' = Inr 0
   \<and> to_chirp_bytes [0xFF] 0 0 = (''jjjjjjkkjjk'', 1, 8)
   \<and> length (fst (to_chirp_bytes [0xFF] 0 0)) = 8 + 3
   \<and> (\<exists>w'. emit_bytes [0xFF] (example_usb, example_world)
               = Some (Inr (), (example_usb\<lparr>state := CHR ''k''\<rparr>,
                                example_world\<lparr>heap := (heap example_world)(0 \<mapsto> w')\<rparr>))
          \<and> written w' = [2, 2, 2, 2, 2, 2, 1, 1, 2, 2, 1])"
proof -
  have g: "to_chirp [0xFF] example_usb
             = Inr (''jjjjjjkkjjk'', example_usb\<lparr>state := CHR ''k''\<rparr>)"
    by (simp add: to_chirp_def jk_index_def jk_at_def ff_chirps example_facts
        del: to_chirp_bytes.simps)
  have d: "double (c2s example_usb) (interpolate example_usb) ''jjjjjjkkjjk''
             = Inr [2, 2, 2, 2, 2, 2, 1, 1, 2, 2, 1]"
    by (simp add: example_usb_def)
  obtain w' where w': "write_samples [2, 2, 2, 2, 2, 2, 1, 1, 2, 2, 1] example_writer
                         = Some (Inr w')"
      "written w' = written example_writer @ [2, 2, 2, 2, 2, 2, 1, 1, 2, 2, 1]"
    using write_samples_unit [OF example_facts(1) example_facts(2)] by blast
  have "emit_bytes [0xFF] (example_usb, example_world)
          = Some (Inr (), (example_usb\<lparr>state := CHR ''k''\<rparr>,
                           example_world\<lparr>heap := (heap example_world)(0 \<mapsto> w')\<rparr>))"
    unfolding emit_bytes_def
    using example_facts(5) example_facts(6) g d w'(1) by (rule emit_chirps_gen)
  then show ?thesis using w'(2)
    by (auto simp: example_facts ff_chirps jk_index_def simp del: to_chirp_bytes.simps)
qed

text \<open>
  C2. The claim is that NRZI decoding and unstuffing the symbols of a payload gives the
  payload back. For the payload \<open>0xFF\<close> from line state J the decoder gets ten bits,
  seven 1-bits and then 0, 1, 0, where the payload has eight 1-bits.
\<close>

theorem round_trip_fails:
  "spec_decode CHR ''j'' (fst (to_chirp_bytes [0xFF] 0 0))
     = [True, True, True, True, True, True, True, False, True, False]
   \<and> payload_bits [0xFF] = [True, True, True, True, True, True, True, True]"
  by code_simp

text \<open>
  C6. \<^verbatim>\<open>emit_stall\<close> with a negative count raises the ValueError and leaves the encoder
  and the store as they were; with 0 it returns and leaves them as they were; with a
  positive count \<open>c\<close>, on a writer for the two channels that \<^verbatim>\<open>sr\<close> is bound to,
  it returns and the writer has received \<open>c\<close> times \<open>interpolate\<close> copies of the
  sample of the current line state. Whatever the count and the store, the encoder is the
  same after the call.
\<close>

theorem emit_stall_cases:
  assumes "n < 0" and "0 < c"
    and "global_sr wd = Some (PyRef a)" and "heap wd a = Some w"
    and "wf_writer w" and "unit_size w = 1"
    and "c2s u (state u) = Some v"
  shows "emit_stall n (u, wd) = Some (Inl (ValueError ''Cycles must be 0 or positive.''), (u, wd))
     \<and> emit_stall 0 (u, wd) = Some (Inr (), (u, wd))
     \<and> (\<exists>w'. emit_stall c (u, wd) = Some (Inr (), (u, wd\<lparr>heap := (heap wd)(a \<mapsto> w')\<rparr>))
            \<and> written w' = written w @ replicate (nat c * nat (interpolate u)) v)
     \<and> (case emit_stall x (y, wd2) of None \<Rightarrow> True | Some (r, (y', wd2')) \<Rightarrow> y' = y)"
proof -
  let ?s = "replicate (nat c) (state u)"
  let ?samples = "replicate (nat c * nat (interpolate u)) v"
  have d: "double (c2s u) (interpolate u) ?s = Inr ?samples"
    using assms(7) by (rule double_replicate)
  obtain w' where w': "write_samples ?samples w = Some (Inr w')"
      "written w' = written w @ ?samples"
    using write_samples_unit [OF assms(5,6), of ?samples] by blast
  have ne: "?s \<noteq> []" using assms(2) by simp
  have "emit_chirps (StrSeq ?s) True (u, wd)
          = Some (Inr (), (u\<lparr>state := last ?s\<rparr>, wd\<lparr>heap := (heap wd)(a \<mapsto> w')\<rparr>))"
    using assms(3,4) d w'(1) ne by (rule emit_chirps_str)
  moreover have "last ?s = state u" using ne by simp
  ultimately have pos: "emit_stall c (u, wd)
      = Some (Inr (), (u, wd\<lparr>heap := (heap wd)(a \<mapsto> w')\<rparr>))"
    using assms(2) by (simp add: emit_stall_def)
  have same: "case emit_stall x (y, wd2) of None \<Rightarrow> True | Some (r, (y', wd2')) \<Rightarrow> y' = y"
    by (auto simp: emit_stall_def emit_chirps_def run_seq_def Let_def
        split: option.splits pyval.splits sum.splits if_splits prod.splits)
  show ?thesis
    using assms(1) pos w'(2) same by (auto simp: emit_stall_def)
qed

theorem emit_stall_cases_witness:
  "emit_stall (- 1) (example_usb, example_world)
     = Some (Inl (ValueError ''Cycles must be 0 or positive.''), (example_usb, example_world))
   \<and> emit_stall 0 (example_usb, example_world) = Some (Inr (), (example_usb, example_world))
   \<and> (\<exists>w'. emit_stall 3 (example_usb, example_world)
              = Some (Inr (), (example_usb, example_world\<lparr>heap := (heap example_world)(0 \<mapsto> w')\<rparr>))
          \<and> written w' = [2, 2, 2])"
proof -
  have h1: "(- 1 :: int) < 0" and h2: "(0 :: int) < 3" by simp_all
  have h7: "c2s example_usb (state example_usb) = Some 2" by (simp add: example_facts)
  show ?thesis
    using emit_stall_cases [OF h1 h2 example_facts(5) example_facts(6) example_facts(1)
        example_facts(2) h7, where x = 0 and y = example_usb and ?wd2.0 = example_world]
    by (simp add: example_facts eval_nat_numeral)
qed



text \<open>
  C10. The encoder was constructed with the writer at address \<open>b\<close> while \<^verbatim>\<open>sr\<close> is
  bound to another writer, at address \<open>a\<close>, which is well formed and has unit size 1;
  the line state is J or K and the table has the samples of J, K and SE0. Then each of
  \<^verbatim>\<open>emit_chirps\<close>, \<^verbatim>\<open>emit_sync\<close>, \<^verbatim>\<open>emit_eop\<close>, \<^verbatim>\<open>emit_stall\<close> (of at least one
  cycle) and \<^verbatim>\<open>emit_bytes\<close> returns, and the store it leaves is the old one with the
  writer at \<open>a\<close> replaced by one that holds the old sample bytes followed by the samples
  of the call: of the argument, of \<^verbatim>\<open>kjkjkjkk\<close>, of \<^verbatim>\<open>ssj\<close>, of the line state once
  per cycle, of the symbols the payload is encoded to. The encoder still holds \<open>b\<close>.
  And whatever any of these calls returns or raises, on any arguments, the writer at
  \<open>b\<close> is as it was, still the one the encoder holds, and \<^verbatim>\<open>sr\<close> is still bound to
  \<open>a\<close>.
\<close>

theorem samples_written_through_global_sr:
  assumes "global_sr wd = Some (PyRef a)"
    and "enc_sr u = PyRef b" and "heap wd b = Some wb" and "a \<noteq> b"
    and "call \<in> {emit_chirps (StrSeq s) upd, emit_sync, emit_eop, emit_stall n,
                   emit_bytes payload}"
    and "heap wd a = Some w" and "wf_writer w" and "unit_size w = 1"
    and "double (c2s u) (interpolate u) s = Inr samples"
    and "state u = CHR ''j'' \<or> state u = CHR ''k''"
    and "c2s u CHR ''j'' \<noteq> None" and "c2s u CHR ''k'' \<noteq> None"
    and "c2s u CHR ''s'' \<noteq> None"
    and "0 < cycles"
  shows "(\<exists>r u' w'. emit_chirps (StrSeq s) upd (u, wd)
                       = Some (r, (u', wd\<lparr>heap := (heap wd)(a \<mapsto> w')\<rparr>))
             \<and> enc_sr u' = PyRef b \<and> written w' = written w @ samples)
     \<and> (\<exists>u' w'. emit_sync (u, wd)
                       = Some (Inr (), (u', wd\<lparr>heap := (heap wd)(a \<mapsto> w')\<rparr>))
             \<and> enc_sr u' = PyRef b
             \<and> written w' = written w @ chirp_samples (c2s u) (interpolate u) ''kjkjkjkk'')
     \<and> (\<exists>u' w'. emit_eop (u, wd)
                       = Some (Inr (), (u', wd\<lparr>heap := (heap wd)(a \<mapsto> w')\<rparr>))
             \<and> enc_sr u' = PyRef b
             \<and> written w' = written w @ chirp_samples (c2s u) (interpolate u) ''ssj'')
     \<and> (\<exists>u' w'. emit_stall cycles (u, wd)
                       = Some (Inr (), (u', wd\<lparr>heap := (heap wd)(a \<mapsto> w')\<rparr>))
             \<and> enc_sr u' = PyRef b
             \<and> written w' = written w
                 @ chirp_samples (c2s u) (interpolate u) (replicate (nat cycles) (state u)))
     \<and> (\<exists>out u' w'. to_chirp payload u = Inr (out, u')
             \<and> emit_bytes payload (u, wd)
                       = Some (Inr (), (u', wd\<lparr>heap := (heap wd)(a \<mapsto> w')\<rparr>))
             \<and> enc_sr u' = PyRef b
             \<and> written w' = written w @ chirp_samples (c2s u) (interpolate u) out)
     \<and> (case call (u, wd) of
           None \<Rightarrow> True
         | Some (r, (u', wd')) \<Rightarrow>
             heap wd' b = Some wb \<and> enc_sr u' = PyRef b \<and> global_sr wd' = Some (PyRef a))"
proof -
  note g = assms(1) assms(6) assms(7) assms(8)
  obtain w' where w': "write_samples samples w = Some (Inr w')"
      "written w' = written w @ samples"
    using write_samples_unit [OF assms(7,8), of samples] by blast
  have chirps: "\<exists>r u' w'. emit_chirps (StrSeq s) upd (u, wd)
                       = Some (r, (u', wd\<lparr>heap := (heap wd)(a \<mapsto> w')\<rparr>))
             \<and> enc_sr u' = PyRef b \<and> written w' = written w @ samples"
    using emit_chirps_str_writes [OF assms(1) assms(6) assms(9) w'(1), of upd] w'(2) assms(2)
    by auto
  have "\<forall>c \<in> set ''kjkjkjkk''. c2s u c \<noteq> None" using assms(11,12) by simp
  from emit_str_writes [OF g this]
  have sync: "\<exists>u' w'. emit_sync (u, wd)
                       = Some (Inr (), (u', wd\<lparr>heap := (heap wd)(a \<mapsto> w')\<rparr>))
             \<and> enc_sr u' = PyRef b
             \<and> written w' = written w @ chirp_samples (c2s u) (interpolate u) ''kjkjkjkk''"
    using assms(2) unfolding emit_sync_def
    by (intro exI [of _ "u\<lparr>state := last ''kjkjkjkk''\<rparr>"]) auto
  have "\<forall>c \<in> set ''ssj''. c2s u c \<noteq> None" using assms(11,13) by simp
  from emit_str_writes [OF g this]
  have eop: "\<exists>u' w'. emit_eop (u, wd)
                       = Some (Inr (), (u', wd\<lparr>heap := (heap wd)(a \<mapsto> w')\<rparr>))
             \<and> enc_sr u' = PyRef b
             \<and> written w' = written w @ chirp_samples (c2s u) (interpolate u) ''ssj''"
    using assms(2) unfolding emit_eop_def
    by (intro exI [of _ "u\<lparr>state := last ''ssj''\<rparr>"]) auto
  have "c2s u (state u) \<noteq> None" using assms(10,11,12) by auto
  from emit_stall_writes [OF g this assms(14)]
  have stall: "\<exists>u' w'. emit_stall cycles (u, wd)
                       = Some (Inr (), (u', wd\<lparr>heap := (heap wd)(a \<mapsto> w')\<rparr>))
             \<and> enc_sr u' = PyRef b
             \<and> written w' = written w
                 @ chirp_samples (c2s u) (interpolate u) (replicate (nat cycles) (state u))"
    using assms(2) by (intro exI [of _ u]) auto
  from emit_bytes_writes [OF g assms(10,11,12), of payload]
  have bytes: "\<exists>out u' w'. to_chirp payload u = Inr (out, u')
             \<and> emit_bytes payload (u, wd)
                       = Some (Inr (), (u', wd\<lparr>heap := (heap wd)(a \<mapsto> w')\<rparr>))
             \<and> enc_sr u' = PyRef b
             \<and> written w' = written w @ chirp_samples (c2s u) (interpolate u) out"
    using assms(2) by metis
  have ng: "global_sr wd \<noteq> Some (PyRef b)" using assms(1,4) by simp
  have frame: "case call (u, wd) of
           None \<Rightarrow> True
         | Some (r, (u', wd')) \<Rightarrow>
             heap wd' b = Some wb \<and> enc_sr u' = PyRef b \<and> global_sr wd' = Some (PyRef a)"
  proof (cases "call (u, wd)")
    case None
    then show ?thesis by simp
  next
    case (Some res)
    obtain r u' wd' where res: "res = (r, (u', wd'))" by (metis prod.exhaust)
    have c: "call (u, wd) = Some (r, (u', wd'))" using Some res by simp
    show ?thesis
      using emit_call_frame(1) [OF assms(5) c] emit_call_frame(2) [OF assms(5) c ng]
        emit_call_frame(3) [OF assms(5) c] assms(1,2,3) c
      by simp
  qed
  show ?thesis
    by (intro conjI) (rule chirps, rule sync, rule eop, rule stall, rule bytes, rule frame)
qed

theorem samples_written_through_global_sr_witness:
  "(\<exists>r u' w'. emit_chirps (StrSeq ''kjkjkjkk'') True (example_usb, example_world)
                 = Some (r, (u', example_world\<lparr>heap := (heap example_world)(0 \<mapsto> w')\<rparr>))
        \<and> enc_sr u' = PyRef 1 \<and> written w' = [1, 2, 1, 2, 1, 2, 1, 1])
   \<and> (\<exists>u' w'. emit_sync (example_usb, example_world)
                 = Some (Inr (), (u', example_world\<lparr>heap := (heap example_world)(0 \<mapsto> w')\<rparr>))
        \<and> enc_sr u' = PyRef 1 \<and> written w' = [1, 2, 1, 2, 1, 2, 1, 1])
   \<and> (\<exists>u' w'. emit_eop (example_usb, example_world)
                 = Some (Inr (), (u', example_world\<lparr>heap := (heap example_world)(0 \<mapsto> w')\<rparr>))
        \<and> enc_sr u' = PyRef 1 \<and> written w' = [0, 0, 2])
   \<and> (\<exists>u' w'. emit_stall 3 (example_usb, example_world)
                 = Some (Inr (), (u', example_world\<lparr>heap := (heap example_world)(0 \<mapsto> w')\<rparr>))
        \<and> enc_sr u' = PyRef 1 \<and> written w' = [2, 2, 2])
   \<and> (\<exists>u' w'. emit_bytes [0xFF] (example_usb, example_world)
                 = Some (Inr (), (u', example_world\<lparr>heap := (heap example_world)(0 \<mapsto> w')\<rparr>))
        \<and> enc_sr u' = PyRef 1 \<and> written w' = [2, 2, 2, 2, 2, 2, 1, 1, 2, 2, 1])
   \<and> (case emit_bytes [0xFF] (example_usb, example_world) of
         None \<Rightarrow> True
       | Some (r, (u', wd')) \<Rightarrow>
           heap wd' 1 = Some example_writer \<and> enc_sr u' = PyRef 1
           \<and> global_sr wd' = Some (PyRef 0))"
proof -
  have h4: "(0 :: nat) \<noteq> 1" by simp
  have h5: "emit_bytes [0xFF] \<in> {emit_chirps (StrSeq ''kjkjkjkk'') True, emit_sync, emit_eop,
                          emit_stall 3, emit_bytes [0xFF]}" by simp
  have h9: "double (c2s example_usb) (interpolate example_usb) ''kjkjkjkk''
              = Inr [1, 2, 1, 2, 1, 2, 1, 1]"
    by (simp add: example_usb_def)
  have h10: "state example_usb = CHR ''j'' \<or> state example_usb = CHR ''k''"
    by (simp add: example_facts)
  have h11: "c2s example_usb CHR ''j'' \<noteq> None" and h12: "c2s example_usb CHR ''k'' \<noteq> None"
    and h13: "c2s example_usb CHR ''s'' \<noteq> None"
    by (simp_all add: example_usb_def)
  have h14: "(0 :: int) < 3" by simp
  have out: "to_chirp [0xFF] example_usb
               = Inr (''jjjjjjkkjjk'', example_usb\<lparr>state := CHR ''k''\<rparr>)"
    using ff_chirps
    by (simp add: to_chirp_def jk_index_def jk_at_def example_facts del: to_chirp_bytes.simps)
  have s: "chirp_samples (c2s example_usb) (interpolate example_usb) ''kjkjkjkk''
             = [1, 2, 1, 2, 1, 2, 1, 1]"
      "chirp_samples (c2s example_usb) (interpolate example_usb) ''ssj'' = [0, 0, 2]"
      "chirp_samples (c2s example_usb) (interpolate example_usb)
         (replicate 3 (state example_usb)) = [2, 2, 2]"
      "chirp_samples (c2s example_usb) (interpolate example_usb) ''jjjjjjkkjjk''
             = [2, 2, 2, 2, 2, 2, 1, 1, 2, 2, 1]"
    by (simp_all add: chirp_samples_def example_usb_def eval_nat_numeral)
  show ?thesis
    using samples_written_through_global_sr [OF example_facts(5) example_facts(8)
        example_facts(7) h4 h5 example_facts(6) example_facts(1) example_facts(2) h9
        h10 h11 h12 h13 h14]
    by (auto simp: example_facts(3,8) out s)
qed

section \<open>Properties of the script\<close>

text \<open>
  C4, as the script has it. The script runs with at least one sample per cycle and a start
  padding that is not negative, on a capture in which some packet's rounded distance from
  the packet before is less than the cycles spent on the packet before (8 for SYNC, the
  symbols of the payload, 3 for EOP). Then the body of the \<^verbatim>\<open>with\<close> statement ends in
  the RuntimeError with the fixed message. The writer it leaves, still open, holds the
  samples of the start padding and of every packet before the one that overruns, each
  after its idle cycles. The script ends in the same error, and the store it leaves is the
  one the body left with \<^verbatim>\<open>close()\<close> called on that writer: the pending slice buffer
  has become the last entry of the archive, so that the slice entries together hold all
  these samples, the buffer is empty, and the archive is closed.
\<close>

theorem overrun_raises_and_closes:
  assumes "USB_SPEED (arg_signaling a) = Some speed"
    and "0 < arg_interpolate a" and "0 \<le> arg_start_padding a"
    and "overruns speed (time (hd pcap)) 0 pcap"
  shows "\<exists>usb u wd w.
           main_usb a = Inr usb
           \<and> with_body a speed pcap (time (hd pcap)) (usb, main_world a speed)
               = Some (Inl (RuntimeError overrun_message), (u, wd))
           \<and> heap wd 0 = Some w
           \<and> \<not> closed (zip_sr w)
           \<and> written w = chirp_samples
                 [CHR ''j'' \<mapsto> 2, CHR ''k'' \<mapsto> 1, CHR ''s'' \<mapsto> 0, CHR ''S'' \<mapsto> 3]
                 (arg_interpolate a)
                 (replicate (nat (arg_start_padding a)) CHR ''j''
                  @ emitted speed (time (hd pcap)) 0 pcap)
           \<and> main a pcap = Some (Inl (RuntimeError overrun_message),
                                   wd\<lparr>heap := (heap wd)(0 \<mapsto> close w)\<rparr>)
           \<and> closed (zip_sr (close w))
           \<and> slices (close w) = slices w @ [slice_buffer w]
           \<and> concat (slices (close w)) = written w
           \<and> slice_buffer (close w) = []"
proof -
  obtain first rest where pcap: "pcap = first # rest"
    using assms(4) by (cases pcap) simp_all
  obtain usb where usb: "main_usb a = Inr usb" using main_usb_eq [of a] by blast
  from body_overruns [OF usb assms(2,3), of speed "time (hd pcap)" pcap]
  obtain u wd w where b: "with_body a speed pcap (time (hd pcap)) (usb, main_world a speed)
                         = Some (Inl (RuntimeError overrun_message), (u, wd))"
      "heap wd 0 = Some w" "\<not> closed (zip_sr w)"
      "written w = chirp_samples
                 [CHR ''j'' \<mapsto> 2, CHR ''k'' \<mapsto> 1, CHR ''s'' \<mapsto> 0, CHR ''S'' \<mapsto> 3]
                 (arg_interpolate a)
                 (replicate (nat (arg_start_padding a)) CHR ''j''
                  @ emitted speed (time (hd pcap)) 0 pcap)"
    using assms(4) by blast
  have "with_body a speed pcap (time first) (usb, main_world a speed)
          = Some (Inl (RuntimeError overrun_message), (u, wd))"
    using b(1) pcap by simp
  from main_of_body [OF assms(1) pcap usb this b(2)]
  have m: "main a pcap = Some (Inl (RuntimeError overrun_message),
                                wd\<lparr>heap := (heap wd)(0 \<mapsto> close w)\<rparr>)" .
  have c: "closed (zip_sr (close w))" "slices (close w) = slices w @ [slice_buffer w]"
      "slice_buffer (close w) = []"
    by (simp_all add: close_fields)
  have f: "concat (slices (close w)) = written w"
    using c(2) by (simp add: written_def)
  show ?thesis
    using usb b m c f by blast
qed

theorem overrun_raises_and_closes_witness:
  "\<exists>usb u wd w.
      main_usb (example_args\<lparr>arg_interpolate := 1, arg_start_padding := 2\<rparr>) = Inr usb
      \<and> with_body (example_args\<lparr>arg_interpolate := 1, arg_start_padding := 2\<rparr>) 12000000
            capture_one 0
            (usb, main_world (example_args\<lparr>arg_interpolate := 1, arg_start_padding := 2\<rparr>)
                    12000000)
          = Some (Inl (RuntimeError overrun_message), (u, wd))
      \<and> heap wd 0 = Some w
      \<and> \<not> closed (zip_sr w)
      \<and> written w = [2, 2, 1, 2, 1, 2, 1, 2, 1, 1, 1, 2, 2, 2, 1, 1, 2, 1, 0, 0, 2]
      \<and> main (example_args\<lparr>arg_interpolate := 1, arg_start_padding := 2\<rparr>) capture_one
          = Some (Inl (RuntimeError overrun_message),
                  wd\<lparr>heap := (heap wd)(0 \<mapsto> close w)\<rparr>)
      \<and> closed (zip_sr (close w))
      \<and> slices (close w) = slices w @ [slice_buffer w]
      \<and> concat (slices (close w))
          = [2, 2, 1, 2, 1, 2, 1, 2, 1, 1, 1, 2, 2, 2, 1, 1, 2, 1, 0, 0, 2]
      \<and> slice_buffer (close w) = []"
proof -
  let ?a = "example_args\<lparr>arg_interpolate := 1, arg_start_padding := 2\<rparr>"
  have h1: "USB_SPEED (arg_signaling ?a) = Some 12000000"
    by (simp add: example_args_def USB_SPEED_def)
  have h2: "0 < arg_interpolate ?a" and h3: "0 \<le> arg_start_padding ?a"
    by simp_all
  have t: "time (hd capture_one) = 0" by (simp add: capture_one_def)
  have h4: "overruns 12000000 (time (hd capture_one)) 0 capture_one"
    by (rule example_overruns(1))
  have e: "chirp_samples
             [CHR ''j'' \<mapsto> 2, CHR ''k'' \<mapsto> 1, CHR ''s'' \<mapsto> 0, CHR ''S'' \<mapsto> 3] 1
             (replicate 2 CHR ''j'' @ emitted 12000000 0 0 capture_one)
           = [2, 2, 1, 2, 1, 2, 1, 2, 1, 1, 1, 2, 2, 2, 1, 1, 2, 1, 0, 0, 2]"
    by code_simp
  show ?thesis
    using overrun_raises_and_closes [OF h1 h2 h3 h4] by (auto simp: t e)
qed

text \<open>
  C4, as the claim has it, says that the error reports which packet could not be
  transferred and the cycles expected and consumed. The script raises the same value, a
  RuntimeError with a fixed message, for \<open>capture_one\<close>, where the packet at index 1
  comes 12 cycles after a packet of 19 cycles, and for \<open>capture_two\<close>, where the packet
  at index 2 comes 6 cycles after a packet of 22 cycles.
\<close>

theorem overrun_error_has_no_context:
  "map_option fst (main example_args capture_one)
     = Some (Inl (RuntimeError ''Previous packet cannot be trasferred on time. Wrong signaling type?''))
   \<and> map_option fst (main example_args capture_two)
     = Some (Inl (RuntimeError ''Previous packet cannot be trasferred on time. Wrong signaling type?''))
   \<and> duration (capture_one ! 0) = 19
   \<and> py_round ((time (capture_one ! 1) - time (capture_one ! 0)) * 12000000) = 12
   \<and> duration (capture_two ! 1) = 22
   \<and> py_round ((time (capture_two ! 2) - time (capture_two ! 1)) * 12000000) = 6"
proof -
  have h1: "USB_SPEED (arg_signaling example_args) = Some 12000000"
    by (simp add: example_args_def USB_SPEED_def)
  have h2: "0 < arg_interpolate example_args" and h3: "0 \<le> arg_start_padding example_args"
    by (simp_all add: example_args_def)
  have one: "map_option fst (main example_args capture_one)
               = Some (Inl (RuntimeError overrun_message))"
    using main_overruns [OF h1 h2 h3 example_overruns(1)] .
  have two: "map_option fst (main example_args capture_two)
               = Some (Inl (RuntimeError overrun_message))"
    using main_overruns [OF h1 h2 h3 example_overruns(2)] .
  have ctx: "duration (capture_one ! 0) = 19
      \<and> py_round ((time (capture_one ! 1) - time (capture_one ! 0)) * 12000000) = 12
      \<and> duration (capture_two ! 1) = 22
      \<and> py_round ((time (capture_two ! 2) - time (capture_two ! 1)) * 12000000) = 6"
    by code_simp
  show ?thesis using one two ctx by (simp add: overrun_message_def)
qed

text \<open>
  C5. The claim is that the encoder uses the table of the signaling the user selected.
  The script calls \<^verbatim>\<open>USBSignaling(args.signaling, args.interpolate)\<close>: the signaling
  is taken for the constructor's first parameter \<^verbatim>\<open>sr\<close>, and the third parameter keeps
  its default \<^verbatim>\<open>'fs'\<close>. With \<^verbatim>\<open>ls\<close> selected the encoder maps J to 2 and K to 1,
  the full-speed table, where the low-speed table maps J to 1 and K to 2.
\<close>

theorem low_speed_uses_full_speed_table:
  "map_sum id (\<lambda>u. (c2s u CHR ''j'', c2s u CHR ''k''))
     (main_usb (example_args\<lparr>arg_signaling := ''ls''\<rparr>)) = Inr (Some 2, Some 1)
   \<and> map_option (\<lambda>table. (table CHR ''j'', table CHR ''k'')) (CHIRP_TO_SAMPLE ''ls'')
       = Some (Some 1, Some 2)"
  by (simp add: main_usb_eq CHIRP_TO_SAMPLE_def)

end
